theory Spec2Isabelle
  imports Main "HOL-Library.Char_ord" "HOL-Library.List_Lexorder" "HOL-Library.Multiset"
    "HOL-Library.Word"
begin

section \<open>Go strings and slices\<close>

text \<open>
  A Go string is a sequence of bytes; \<^typ>\<open>char\<close> has exactly the 256 byte values, so a Go
  string is a \<^typ>\<open>string\<close>. Go compares strings bytewise and lexicographically, which is the
  order of \<open>List_Lexorder\<close> over \<open>Char_ord\<close>.
\<close>

definition HasPrefix :: "string \<Rightarrow> string \<Rightarrow> bool" where
  "HasPrefix s p = (take (length p) s = p)"

definition HasSuffix :: "string \<Rightarrow> string \<Rightarrow> bool" where
  "HasSuffix s p = (length p \<le> length s \<and> drop (length s - length p) s = p)"

definition TrimPrefix :: "string \<Rightarrow> string \<Rightarrow> string" where
  "TrimPrefix s p = (if HasPrefix s p then drop (length p) s else s)"

definition TrimSuffix :: "string \<Rightarrow> string \<Rightarrow> string" where
  "TrimSuffix s p = (if HasSuffix s p then take (length s - length p) s else s)"

definition CutPrefix :: "string \<Rightarrow> string \<Rightarrow> string \<times> bool" where
  "CutPrefix s p = (if HasPrefix s p then (drop (length p) s, True) else (s, False))"

definition ContainsAny :: "string \<Rightarrow> string \<Rightarrow> bool" where
  "ContainsAny s chars = list_ex (\<lambda>c. c \<in> set chars) s"

text \<open>\<open>strings.Trim\<close> with a cutset of ASCII bytes: bytes of the cutset are removed from the
  front, then from the back.\<close>

definition Trim :: "string \<Rightarrow> string \<Rightarrow> string" where
  "Trim s cutset =
     rev (dropWhile (\<lambda>c. c \<in> set cutset) (rev (dropWhile (\<lambda>c. c \<in> set cutset) s)))"

text \<open>\<open>strings.ReplaceAll\<close> for a pattern and a replacement of one byte each.\<close>

definition ReplaceAll :: "string \<Rightarrow> char \<Rightarrow> char \<Rightarrow> string" where
  "ReplaceAll s old new = map (\<lambda>c. if c = old then new else c) s"

fun Join :: "string list \<Rightarrow> string \<Rightarrow> string" where
  "Join [] sep = []"
| "Join [x] sep = x"
| "Join (x # y # ys) sep = x @ sep @ Join (y # ys) sep"

text \<open>\<open>unicode.IsUpper(rune(b)) && unicode.IsLetter(rune(b))\<close> for a byte \<open>b\<close>: the rune is a
  Latin-1 code point, upper case for \<open>A..Z\<close>, \<open>U+00C0..U+00D6\<close> and \<open>U+00D8..U+00DE\<close>.\<close>

definition IsUpperLetter :: "char \<Rightarrow> bool" where
  "IsUpperLetter b = (let n = (of_char b :: nat) in
     (65 \<le> n \<and> n \<le> 90) \<or> (192 \<le> n \<and> n \<le> 214) \<or> (216 \<le> n \<and> n \<le> 222))"

text \<open>\<open>strings.ToLower\<close> of a string of one byte: an ASCII letter is lowered, another ASCII byte
  is kept, and a byte from \<open>0x80\<close> on is not valid UTF-8 and becomes the encoding of
  \<open>U+FFFD\<close>.\<close>

definition ToLower1 :: "char \<Rightarrow> string" where
  "ToLower1 b = (let n = (of_char b :: nat) in
     if 65 \<le> n \<and> n \<le> 90 then [char_of (n + 32)]
     else if n < 128 then [b]
     else [char_of (239::nat), char_of (191::nat), char_of (189::nat)])"

text \<open>\<open>slices.Sort\<close>, \<open>slices.Compact\<close> and \<open>slices.DeleteFunc\<close> on a slice of strings. Equal
  strings cannot be told apart, so the sorted slice is the one sorted permutation.\<close>

definition Sort :: "string list \<Rightarrow> string list" where
  "Sort xs = sort xs"

definition Compact :: "string list \<Rightarrow> string list" where
  "Compact xs = remdups_adj xs"

definition DeleteFunc :: "'a list \<Rightarrow> ('a \<Rightarrow> bool) \<Rightarrow> 'a list" where
  "DeleteFunc xs del = filter (\<lambda>x. \<not> del x) xs"

text \<open>\<open>slices.BinarySearch\<close>: the loop narrows \<open>[i, j)\<close> around the first position whose element
  is not below the target, and the target is found when that position holds it.\<close>

function BinarySearch_loop :: "string list \<Rightarrow> string \<Rightarrow> nat \<Rightarrow> nat \<Rightarrow> nat" where
  "BinarySearch_loop x target i j =
     (if i < j then
        (let h = (i + j) div 2 in
         if x ! h < target then BinarySearch_loop x target (h + 1) j
         else BinarySearch_loop x target i h)
      else i)"
  by pat_completeness auto
termination
  by (relation "measure (\<lambda>(x, target, i, j). j - i)") auto

declare BinarySearch_loop.simps [simp del]

definition BinarySearch :: "string list \<Rightarrow> string \<Rightarrow> nat \<times> bool" where
  "BinarySearch x target =
     (let n = length x; i = BinarySearch_loop x target 0 n
      in (i, i < n \<and> x ! i = target))"

section \<open>Imports and their normalisation\<close>

record Imports =
  Imports :: "string list"
  Locals :: "string list"
  Classes :: "string list"
  Protos :: "string list"

text \<open>The zero value of the struct.\<close>

definition Imports_zero :: Imports where
  "Imports_zero = \<lparr>Imports = [], Locals = [], Classes = [], Protos = []\<rparr>"

text \<open>The Foundation index is a \<open>map[string][]string\<close>; reading a missing key gives the nil
  slice.\<close>

type_synonym foundation = "string \<rightharpoonup> string list"

definition fnd :: "foundation \<Rightarrow> string \<Rightarrow> string list" where
  "fnd foundation k = (case foundation k of None \<Rightarrow> [] | Some v \<Rightarrow> v)"

definition uniq :: "foundation \<Rightarrow> Imports \<Rightarrow> Imports" where
  "uniq foundation i =
     (let imports = Compact (Sort (Imports i));
          locals = Compact (Sort (Locals i));
          classes = Compact (Sort (Classes i));
          protos = Compact (Sort (Protos i));
          locals' = DeleteFunc locals (\<lambda>l.
             let l1 = TrimSuffix l ''-Protocol.h'';
                 l2 = TrimSuffix l1 ''.h'';
                 foundC = snd (BinarySearch (fnd foundation ''classes'') l2);
                 foundP = snd (BinarySearch (fnd foundation ''protocols'') l2)
             in foundC \<or> foundP);
          classes' = DeleteFunc classes (\<lambda>c. snd (BinarySearch (fnd foundation ''classes'') c));
          protos' = DeleteFunc protos (\<lambda>p. snd (BinarySearch (fnd foundation ''protocols'') p))
      in \<lparr>Imports = imports, Locals = locals', Classes = classes', Protos = protos'\<rparr>)"

section \<open>Descriptors of the binary metadata provider\<close>

text \<open>
  Modelled from the spec: the typed descriptors belong to the binary parsing library, which is
  not among the sources; their fields follow the data model of the specification. A class
  carries its name, its superclass name, and the ordered lists of its adopted protocols, ivars,
  properties, instance methods and class methods. A property carries its name and the
  declaration-style type that \<open>Type()\<close> returns. A protocol carries the pointer that identifies
  it. A category carries its name and the class it extends, if that is resolved.

  The two accessors of a method that the resolver calls, \<open>NumberOfArguments()\<close> and
  \<open>ArgumentType(i)\<close>, are taken as they are given: a method carries the number and the function
  that the library answers with, and nothing is assumed about which entry holds the return
  type, the receiver, the selector or an explicit argument.
\<close>

record Protocol =
  proto_Name :: string
  proto_Ptr :: "64 word"

record Ivar =
  ivar_Name :: string
  ivar_Type :: string

record Property =
  prop_Name :: string
  prop_Type :: string

record Method =
  meth_Name :: string
  NumberOfArguments :: nat
  ArgumentType :: "nat \<Rightarrow> string"

record Class =
  class_Name :: string
  class_SuperClass :: string
  class_Protocols :: "Protocol list"
  class_Ivars :: "Ivar list"
  class_Props :: "Property list"
  class_InstanceMethods :: "Method list"
  class_ClassMethods :: "Method list"

record Category =
  cat_Name :: string
  cat_Class :: "Class option"

datatype error =
    ErrObjcSectionNotFound
  | ErrOther string
  | ErrMkdirAll string
  | ErrWriteFile string

text \<open>A binary: whether it has ObjC metadata, the name of its dylib id if it has one, the
  printed \<open>LC_BUILD_VERSION\<close> and \<open>LC_SOURCE_VERSION\<close> load commands, and what the three
  descriptor queries return.\<close>

record MachoFile =
  HasObjC :: bool
  DylibID :: "string option"
  LC_BUILD_VERSION :: "string list"
  LC_SOURCE_VERSION :: "string list"
  GetObjCClasses :: "error + Class list"
  GetObjCProtocols :: "error + Protocol list"
  GetObjCCategories :: "error + Category list"

text \<open>The callers go on with the returned slice when the error is \<open>ErrObjcSectionNotFound\<close>;
  the slice returned beside an error is nil.\<close>

definition unless_absent :: "error + 'a list \<Rightarrow> error + 'a list" where
  "unless_absent r =
     (case r of
        Inl e \<Rightarrow> if e = ErrObjcSectionNotFound then Inr [] else Inl e
      | Inr xs \<Rightarrow> Inr xs)"

section \<open>The dependency resolver\<close>

text \<open>
  \<open>slices.SortStableFunc\<close> with the comparison of the names is \<^const>\<open>sort_key\<close> on the name:
  elements with equal names keep their order. \<open>slices.Contains\<close> is membership in the set of
  the list.
\<close>

text \<open>The test of the property and method walks for an object pointer in declaration style.\<close>

definition looksLikeObject :: "string \<Rightarrow> bool" where
  "looksLikeObject typ = ((typ \<noteq> [] \<and> IsUpperLetter (hd typ)) \<and> HasSuffix typ ''*'')"

definition protocol_step :: "string list \<Rightarrow> Imports \<Rightarrow> Protocol \<Rightarrow> Imports" where
  "protocol_step protoNames imp prot =
     (if proto_Name prot \<in> set protoNames
      then imp\<lparr>Locals := Locals imp @ [proto_Name prot @ ''-Protocol.h'']\<rparr>
      else imp\<lparr>Protos := Protos imp @ [proto_Name prot]\<rparr>)"

text \<open>The branch shared by the ivar and property walks for a type with \<open><\<close> or \<open>>\<close>, entered
  after the leading trims.\<close>

definition qualified_step :: "string list \<Rightarrow> Imports \<Rightarrow> string \<Rightarrow> Imports" where
  "qualified_step protoNames imp typ0 =
     (let (rest, ok) = CutPrefix typ0 ''NSObject<'';
          typ1 = (if ok then TrimSuffix rest ''>'' else typ0);
          imp1 = (if ok then
                    (if typ1 \<in> set protoNames
                     then imp\<lparr>Locals := Locals imp @ [typ1 @ ''-Protocol.h'']\<rparr>
                     else imp\<lparr>Protos := Protos imp @ [typ1]\<rparr>)
                  else imp);
          typ2 = Trim typ1 ''<>''
      in if typ2 \<in> set protoNames
         then imp1\<lparr>Locals := Locals imp1 @ [typ2 @ ''-Protocol.h'']\<rparr>
         else imp1\<lparr>Protos := Protos imp1 @ [typ2]\<rparr>)"

definition ivar_step :: "string list \<Rightarrow> string list \<Rightarrow> Imports \<Rightarrow> Ivar \<Rightarrow> Imports" where
  "ivar_step classNames protoNames imp ivar =
     (let typ = ivar_Type ivar in
      if ContainsAny typ ''<>'' then
        qualified_step protoNames imp (Trim typ [CHR ''@'', CHR 0x22])
      else
        (let (rest, ok) = CutPrefix typ [CHR ''@'', CHR 0x22] in
         if ok then
           (let typ1 = TrimSuffix rest [CHR 0x22] in
            if typ1 \<in> set classNames
            then imp\<lparr>Locals := Locals imp @ [typ1 @ ''.h'']\<rparr>
            else imp\<lparr>Classes := Classes imp @ [typ1]\<rparr>)
         else imp))"

definition prop_step :: "string list \<Rightarrow> string list \<Rightarrow> Imports \<Rightarrow> Property \<Rightarrow> Imports" where
  "prop_step classNames protoNames imp prop =
     (let typ = prop_Type prop in
      if ContainsAny typ ''<>'' then
        qualified_step protoNames imp (Trim (Trim typ [CHR ''@'', CHR 0x22]) '' *'')
      else if looksLikeObject typ then
        (let typ1 = Trim typ '' *'' in
         if typ1 \<in> set classNames
         then imp\<lparr>Locals := Locals imp @ [typ1 @ ''.h'']\<rparr>
         else imp\<lparr>Classes := Classes imp @ [typ1]\<rparr>)
      else imp)"

text \<open>What the instance-method walk does with one argument type.\<close>

definition instance_arg_step :: "string list \<Rightarrow> string list \<Rightarrow> Imports \<Rightarrow> string \<Rightarrow> Imports" where
  "instance_arg_step classNames protoNames imp typ =
     (if looksLikeObject typ then
        (if typ \<in> set classNames then imp\<lparr>Locals := Locals imp @ [typ @ ''.h'']\<rparr>
         else if Trim typ ''NSObject<>'' \<in> set protoNames
         then imp\<lparr>Locals := Locals imp @ [Trim typ ''NSObject<>'' @ ''-Protocol.h'']\<rparr>
         else imp\<lparr>Classes := Classes imp @ [typ]\<rparr>)
      else imp)"

text \<open>What the class-method walk does with one argument type.\<close>

definition class_arg_step :: "string list \<Rightarrow> Imports \<Rightarrow> string \<Rightarrow> Imports" where
  "class_arg_step classNames imp typ =
     (if looksLikeObject typ then
        (if typ \<in> set classNames then imp\<lparr>Locals := Locals imp @ [typ @ ''.h'']\<rparr>
         else imp\<lparr>Classes := Classes imp @ [typ]\<rparr>)
      else imp)"

text \<open>The loop \<open>for i := 0; i < method.NumberOfArguments(); i++\<close> over the arguments of one
  method, with the statement \<open>if i == 0 { i += 2 }\<close> at the end of its body; \<open>step\<close> is the
  classification of the walk.\<close>

function arg_loop :: "(Imports \<Rightarrow> string \<Rightarrow> Imports) \<Rightarrow> Method \<Rightarrow> nat \<Rightarrow> Imports \<Rightarrow> Imports" where
  "arg_loop step method i imp =
     (if i < NumberOfArguments method then
        (let typ = ArgumentType method i;
             imp1 = step imp typ;
             i1 = (if i = 0 then i + 2 else i)
         in arg_loop step method (i1 + 1) imp1)
      else imp)"
  by pat_completeness auto
termination
  by (relation "measure (\<lambda>(step, method, i, imp). NumberOfArguments method - i)") auto

declare arg_loop.simps [simp del]

definition class_imports :: "foundation \<Rightarrow> string list \<Rightarrow> string list \<Rightarrow> Class \<Rightarrow> Imports" where
  "class_imports foundation classNames protoNames class =
     (let imp0 = Imports_zero;
          imp1 = (if class_SuperClass class = ''NSObject''
                  then imp0\<lparr>Imports := Imports imp0 @ [''Foundation'']\<rparr> else imp0);
          imp2 = foldl (protocol_step protoNames) imp1 (class_Protocols class);
          imp3 = foldl (ivar_step classNames protoNames) imp2 (class_Ivars class);
          imp4 = foldl (prop_step classNames protoNames) imp3 (class_Props class);
          imp5 = foldl (\<lambda>imp method. arg_loop (instance_arg_step classNames protoNames) method 0 imp)
                   imp4 (class_InstanceMethods class);
          imp6 = foldl (\<lambda>imp method. arg_loop (class_arg_step classNames) method 0 imp)
                   imp5 (class_ClassMethods class)
      in uniq foundation imp6)"

definition processForwardDeclarations ::
  "foundation \<Rightarrow> MachoFile \<Rightarrow> error + (string \<rightharpoonup> Imports)" where
  "processForwardDeclarations foundation m =
     (case unless_absent (GetObjCClasses m) of
        Inl err \<Rightarrow> Inl err
      | Inr classes0 \<Rightarrow>
          (let classes = sort_key class_Name classes0;
               classNames = map class_Name classes
           in case unless_absent (GetObjCProtocols m) of
                Inl err \<Rightarrow> Inl err
              | Inr protos0 \<Rightarrow>
                  (let protos = sort_key proto_Name protos0;
                       protoNames = map proto_Name protos
                   in Inr (foldl (\<lambda>imps class.
                                    imps(class_Name class \<mapsto>
                                      class_imports foundation classNames protoNames class))
                            Map.empty classes))))"

text \<open>Reading \<open>imps[name]\<close>: a missing key gives the zero value.\<close>

definition imps_at :: "(string \<rightharpoonup> Imports) \<Rightarrow> string \<Rightarrow> Imports" where
  "imps_at imps name = (case imps name of None \<Rightarrow> Imports_zero | Some imp \<Rightarrow> imp)"

section \<open>Paths\<close>

text \<open>\<open>filepath.Clean\<close>, \<open>filepath.Join\<close> and \<open>filepath.Base\<close> with the separator \<open>/\<close>.
  \<open>Split\<close> cuts a string at every occurrence of one byte. \<open>Clean\<close>
  works on the elements between separators: empty elements and \<open>.\<close> are dropped, \<open>..\<close> removes
  the element before it, is dropped at the root, and is kept at the front of a relative
  path.\<close>

fun Split :: "string \<Rightarrow> char \<Rightarrow> string list" where
  "Split [] sep = [[]]"
| "Split (c # cs) sep =
     (if c = sep then [] # Split cs sep
      else (case Split cs sep of [] \<Rightarrow> [[c]] | x # xs \<Rightarrow> (c # x) # xs))"

definition clean_step :: "bool \<Rightarrow> string list \<Rightarrow> string \<Rightarrow> string list" where
  "clean_step rooted out elem =
     (if elem = [] \<or> elem = ''.'' then out
      else if elem = ''..'' then
        (if out \<noteq> [] \<and> last out \<noteq> ''..'' then butlast out
         else if rooted then out
         else out @ [''..''])
      else out @ [elem])"

definition Clean :: "string \<Rightarrow> string" where
  "Clean path =
     (if path = [] then ''.''
      else
        (let rooted = (hd path = CHR ''/'');
             out = (if rooted then ''/'' else []) @
                   Join (foldl (clean_step rooted) [] (Split path (CHR ''/''))) ''/''
         in if out = [] then ''.'' else out))"

definition filepath_Join :: "string list \<Rightarrow> string" where
  "filepath_Join elem =
     (case dropWhile (\<lambda>e. e = []) elem of
        [] \<Rightarrow> []
      | e # es \<Rightarrow> Clean (Join (e # es) ''/''))"

definition filepath_Base :: "string \<Rightarrow> string" where
  "filepath_Base path =
     (if path = [] then ''.''
      else
        (let p = rev (dropWhile (\<lambda>c. c = CHR ''/'') (rev path));
             b = rev (takeWhile (\<lambda>c. c \<noteq> CHR ''/'') (rev p))
         in if b = [] then ''/'' else b))"

section \<open>Rendering and writing one header\<close>

record headerInfo =
  h_FileName :: string
  h_IpswVersion :: string
  h_BuildVersions :: "string list"
  h_SourceVersion :: string
  h_IsUmbrella :: bool
  h_Name :: string
  h_Imports :: Imports
  h_Object :: string

text \<open>The text that \<open>writeHeader\<close> builds in \<open>out\<close>.\<close>

definition render_header :: "headerInfo \<Rightarrow> string" where
  "render_header hinfo =
     ''//'' @ [CHR 0x0A] @
     ''//   Generated by https://github.com/blacktop/ipsw ('' @ h_IpswVersion hinfo @ '')'' @
       [CHR 0x0A] @
     ''//'' @ [CHR 0x0A] @
     ''//    - LC_BUILD_VERSION:  '' @
       Join (h_BuildVersions hinfo) (CHR 0x0A # ''//    - LC_BUILD_VERSION:  '') @ [CHR 0x0A] @
     ''//    - LC_SOURCE_VERSION: '' @ h_SourceVersion hinfo @ [CHR 0x0A] @
     ''//'' @ [CHR 0x0A] @
     ''#ifndef '' @ h_Name hinfo @ ''_h'' @ [CHR 0x0A] @
     ''#define '' @ h_Name hinfo @ ''_h'' @ [CHR 0x0A] @
     (if \<not> h_IsUmbrella hinfo then ''@import Foundation;'' @ [CHR 0x0A] else []) @
     [CHR 0x0A] @
     (if Locals (h_Imports hinfo) \<noteq> [] then
        concat (map (\<lambda>local. ''#include '' @ [CHR 0x22] @ local @ [CHR 0x22, CHR 0x0A])
                  (Locals (h_Imports hinfo))) @ [CHR 0x0A]
      else []) @
     (if Classes (h_Imports hinfo) \<noteq> [] then
        ''@class '' @ Join (Classes (h_Imports hinfo)) '', '' @ '';'' @ [CHR 0x0A]
      else []) @
     (if Protos (h_Imports hinfo) \<noteq> [] then
        ''@protocol '' @ Join (Protos (h_Imports hinfo)) '', '' @ '';'' @ [CHR 0x0A]
      else []) @
     (if Classes (h_Imports hinfo) \<noteq> [] \<or> Protos (h_Imports hinfo) \<noteq> [] then [CHR 0x0A]
      else []) @
     h_Object hinfo @ [CHR 0x0A] @
     ''#endif /* '' @ h_Name hinfo @ ''_h */'' @ [CHR 0x0A]"

text \<open>
  The file system is the list of the completed writes, in order, each a path and the text
  written to it (a later write to the same path replaces the file). Whether \<open>os.MkdirAll\<close> and \<open>os.WriteFile\<close> succeed is decided outside the
  program: \<open>io\<close> answers for the writes made so far and the path. The collaborators that
  print a descriptor (\<open>Verbose\<close>) and demangle the text are kept as they are given.
\<close>

type_synonym fslog = "(string \<times> string) list"

datatype io_outcome = IoOk | MkdirAllFails | WriteFileFails

record env =
  class_Verbose :: "Class \<Rightarrow> string"
  proto_Verbose :: "Protocol \<Rightarrow> string"
  cat_Verbose :: "Category \<Rightarrow> string"
  DemangleBlob :: "string \<Rightarrow> string"
  io :: "fslog \<Rightarrow> string \<Rightarrow> io_outcome"

definition writeHeader :: "env \<Rightarrow> headerInfo \<Rightarrow> fslog \<Rightarrow> (error + unit) \<times> fslog" where
  "writeHeader E hinfo log =
     (let out = render_header hinfo in
      case io E log (h_FileName hinfo) of
        MkdirAllFails \<Rightarrow> (Inl (ErrMkdirAll (h_FileName hinfo)), log)
      | WriteFileFails \<Rightarrow> (Inl (ErrWriteFile (h_FileName hinfo)), log)
      | IoOk \<Rightarrow> (Inr (), log @ [(h_FileName hinfo, out)]))"

definition transformSetter :: "string \<Rightarrow> string" where
  "transformSetter inp =
     (if HasPrefix inp ''set'' then
        (let inp1 = TrimSuffix (TrimPrefix inp ''set'') '':'' in
         if inp1 \<noteq> [] then ToLower1 (hd inp1) @ tl inp1 else [])
      else inp)"

section \<open>Header generation for one binary\<close>

text \<open>The fields of the configuration that header generation reads or writes.\<close>

record ObjcConfig =
  conf_Name :: string
  conf_IpswVersion :: string
  conf_Output :: string

text \<open>The class as it is printed: the ivars and instance methods that back a property are
  deleted first. The loop variable is a copy of the descriptor, and the two slices are not
  read again after the class is printed, so the deletion is a function of the class.\<close>

definition strip_accessors :: "Class \<Rightarrow> Class" where
  "strip_accessors class =
     (let props = Sort (map prop_Name (class_Props class));
          ivars = DeleteFunc (class_Ivars class)
                    (\<lambda>i. TrimPrefix (ivar_Name i) ''_'' \<in> set props);
          methods = DeleteFunc (class_InstanceMethods class)
                    (\<lambda>m. meth_Name m \<in> set props \<or> transformSetter (meth_Name m) \<in> set props)
      in class\<lparr>class_Ivars := ivars, class_InstanceMethods := methods\<rparr>)"

definition class_headerInfo ::
  "env \<Rightarrow> ObjcConfig \<Rightarrow> string list \<Rightarrow> string \<Rightarrow> (string \<rightharpoonup> Imports) \<Rightarrow> Class \<Rightarrow> headerInfo" where
  "class_headerInfo E conf buildVersions sourceVersion imps class =
     \<lparr>h_FileName = filepath_Join [conf_Output conf, conf_Name conf, class_Name class @ ''.h''],
      h_IpswVersion = conf_IpswVersion conf,
      h_BuildVersions = buildVersions,
      h_SourceVersion = sourceVersion,
      h_IsUmbrella = False,
      h_Name = class_Name class,
      h_Imports = imps_at imps (class_Name class),
      h_Object = DemangleBlob E (class_Verbose E class)\<rparr>"

fun class_loop ::
  "env \<Rightarrow> ObjcConfig \<Rightarrow> string list \<Rightarrow> string \<Rightarrow> (string \<rightharpoonup> Imports) \<Rightarrow> Class list \<Rightarrow>
   string list \<Rightarrow> fslog \<Rightarrow> (error + string list) \<times> fslog" where
  "class_loop E conf bvs sv imps [] headers log = (Inr headers, log)"
| "class_loop E conf bvs sv imps (class # rest) headers log =
     (let hinfo = class_headerInfo E conf bvs sv imps (strip_accessors class) in
      case writeHeader E hinfo log of
        (Inl err, log') \<Rightarrow> (Inl err, log')
      | (Inr u, log') \<Rightarrow>
          class_loop E conf bvs sv imps rest (headers @ [filepath_Base (h_FileName hinfo)]) log')"

definition proto_headerInfo ::
  "env \<Rightarrow> ObjcConfig \<Rightarrow> string list \<Rightarrow> string \<Rightarrow> (string \<rightharpoonup> Imports) \<Rightarrow> Protocol \<Rightarrow> headerInfo" where
  "proto_headerInfo E conf buildVersions sourceVersion imps proto =
     \<lparr>h_FileName =
        filepath_Join [conf_Output conf, conf_Name conf, proto_Name proto @ ''-Protocol.h''],
      h_IpswVersion = conf_IpswVersion conf,
      h_BuildVersions = buildVersions,
      h_SourceVersion = sourceVersion,
      h_IsUmbrella = False,
      h_Name = proto_Name proto,
      h_Imports = imps_at imps (proto_Name proto),
      h_Object = DemangleBlob E (proto_Verbose E proto)\<rparr>"

fun proto_loop ::
  "env \<Rightarrow> foundation \<Rightarrow> ObjcConfig \<Rightarrow> string list \<Rightarrow> string \<Rightarrow> (string \<rightharpoonup> Imports) \<Rightarrow>
   Protocol list \<Rightarrow> 64 word set \<Rightarrow> string list \<Rightarrow> fslog \<Rightarrow> (error + string list) \<times> fslog" where
  "proto_loop E foundation conf bvs sv imps [] seen headers log = (Inr headers, log)"
| "proto_loop E foundation conf bvs sv imps (proto # rest) seen headers log =
     (if snd (BinarySearch (fnd foundation ''protocols'') (proto_Name proto)) then
        proto_loop E foundation conf bvs sv imps rest seen headers log
      else if proto_Ptr proto \<notin> seen then
        (let hinfo = proto_headerInfo E conf bvs sv imps proto in
         case writeHeader E hinfo log of
           (Inl err, log') \<Rightarrow> (Inl err, log')
         | (Inr u, log') \<Rightarrow>
             proto_loop E foundation conf bvs sv imps rest (insert (proto_Ptr proto) seen)
               (headers @ [filepath_Base (h_FileName hinfo)]) log')
      else proto_loop E foundation conf bvs sv imps rest seen headers log)"

definition cat_FileName :: "ObjcConfig \<Rightarrow> Category \<Rightarrow> string" where
  "cat_FileName conf cat =
     (case cat_Class cat of
        None \<Rightarrow> filepath_Join [conf_Output conf, conf_Name conf, cat_Name cat @ ''.h'']
      | Some class \<Rightarrow>
          if class_Name class \<noteq> [] then
            filepath_Join [conf_Output conf, conf_Name conf,
                           class_Name class @ ''+'' @ cat_Name cat @ ''.h'']
          else filepath_Join [conf_Output conf, conf_Name conf, cat_Name cat @ ''.h''])"

definition cat_headerInfo ::
  "env \<Rightarrow> ObjcConfig \<Rightarrow> string list \<Rightarrow> string \<Rightarrow> (string \<rightharpoonup> Imports) \<Rightarrow> Category \<Rightarrow> headerInfo" where
  "cat_headerInfo E conf buildVersions sourceVersion imps cat =
     \<lparr>h_FileName = cat_FileName conf cat,
      h_IpswVersion = conf_IpswVersion conf,
      h_BuildVersions = buildVersions,
      h_SourceVersion = sourceVersion,
      h_IsUmbrella = False,
      h_Name = cat_Name cat,
      h_Imports = imps_at imps (cat_Name cat),
      h_Object = DemangleBlob E (cat_Verbose E cat)\<rparr>"

fun cat_loop ::
  "env \<Rightarrow> ObjcConfig \<Rightarrow> string list \<Rightarrow> string \<Rightarrow> (string \<rightharpoonup> Imports) \<Rightarrow> Category list \<Rightarrow>
   string list \<Rightarrow> fslog \<Rightarrow> (error + string list) \<times> fslog" where
  "cat_loop E conf bvs sv imps [] headers log = (Inr headers, log)"
| "cat_loop E conf bvs sv imps (cat # rest) headers log =
     (let hinfo = cat_headerInfo E conf bvs sv imps cat in
      case writeHeader E hinfo log of
        (Inl err, log') \<Rightarrow> (Inl err, log')
      | (Inr u, log') \<Rightarrow>
          cat_loop E conf bvs sv imps rest (headers @ [filepath_Base (h_FileName hinfo)]) log')"

text \<open>The name of the umbrella header, and its \<open>headerInfo\<close>.\<close>

definition umbrella_name :: "ObjcConfig \<Rightarrow> string list \<Rightarrow> string" where
  "umbrella_name conf headers =
     (if conf_Name conf @ ''.h'' \<in> set headers then conf_Name conf @ ''-Umbrella''
      else conf_Name conf)"

definition umbrella_headerInfo ::
  "ObjcConfig \<Rightarrow> string list \<Rightarrow> string \<Rightarrow> string list \<Rightarrow> headerInfo" where
  "umbrella_headerInfo conf buildVersions sourceVersion headers =
     (let umbrella = umbrella_name conf headers;
          headers' = map (\<lambda>header. ''#import '' @ [CHR 0x22] @ header @ [CHR 0x22]) headers
      in \<lparr>h_FileName = filepath_Join [conf_Output conf, conf_Name conf, umbrella @ ''.h''],
          h_IpswVersion = conf_IpswVersion conf,
          h_BuildVersions = buildVersions,
          h_SourceVersion = sourceVersion,
          h_IsUmbrella = True,
          h_Name = ReplaceAll umbrella (CHR ''-'') (CHR ''_''),
          h_Imports = Imports_zero,
          h_Object = Join headers' [CHR 0x0A] @ [CHR 0x0A]\<rparr>)"

text \<open>The three entity sections of \<open>writeHeaders\<close>, from the forward declarations to the last
  category: the result is the list \<open>headers\<close> of the file names written.\<close>

definition entity_headers ::
  "env \<Rightarrow> foundation \<Rightarrow> ObjcConfig \<Rightarrow> string list \<Rightarrow> string \<Rightarrow> MachoFile \<Rightarrow> fslog \<Rightarrow>
   (error + string list) \<times> fslog" where
  "entity_headers E foundation conf bvs sv m log =
     (case processForwardDeclarations foundation m of
        Inl err \<Rightarrow> (Inl err, log)
      | Inr imps \<Rightarrow>
     (case unless_absent (GetObjCClasses m) of
        Inl err \<Rightarrow> (Inl err, log)
      | Inr classes \<Rightarrow>
     (case class_loop E conf bvs sv imps (sort_key class_Name classes) [] log of
        (Inl err, log1) \<Rightarrow> (Inl err, log1)
      | (Inr headers1, log1) \<Rightarrow>
     (case unless_absent (GetObjCProtocols m) of
        Inl err \<Rightarrow> (Inl err, log1)
      | Inr protos \<Rightarrow>
     (case proto_loop E foundation conf bvs sv imps (sort_key proto_Name protos) {} headers1 log1 of
        (Inl err, log2) \<Rightarrow> (Inl err, log2)
      | (Inr headers2, log2) \<Rightarrow>
     (case unless_absent (GetObjCCategories m) of
        Inl err \<Rightarrow> (Inl err, log2)
      | Inr cats \<Rightarrow>
          cat_loop E conf bvs sv imps (sort_key cat_Name cats) headers2 log2))))))"

text \<open>The closure \<open>writeHeaders\<close>. It assigns \<open>o.conf.Name\<close>, so the configuration is returned
  beside the error and the file system.\<close>

definition writeHeaders ::
  "env \<Rightarrow> foundation \<Rightarrow> ObjcConfig \<Rightarrow> MachoFile \<Rightarrow> fslog \<Rightarrow> (error + unit) \<times> ObjcConfig \<times> fslog" where
  "writeHeaders E foundation conf0 m log =
     (if \<not> HasObjC m then (Inr (), conf0, log)
      else
        (let conf = (case DylibID m of
                       Some idName \<Rightarrow> conf0\<lparr>conf_Name := filepath_Base idName\<rparr>
                     | None \<Rightarrow> conf0);
             buildVersions = LC_BUILD_VERSION m;
             sourceVersion = (case LC_SOURCE_VERSION m of [] \<Rightarrow> [] | sv # svs \<Rightarrow> sv)
         in case entity_headers E foundation conf buildVersions sourceVersion m log of
              (Inl err, log1) \<Rightarrow> (Inl err, conf, log1)
            | (Inr headers, log1) \<Rightarrow>
                if headers \<noteq> [] then
                  (case writeHeader E
                          (umbrella_headerInfo conf buildVersions sourceVersion headers) log1 of
                     (Inl err, log2) \<Rightarrow> (Inl err, conf, log2)
                   | (Inr u, log2) \<Rightarrow> (Inr (), conf, log2))
                else (Inr (), conf, log1)))"

section \<open>The Foundation index and the whole operation\<close>

text \<open>The shared cache resolves an image name to an image, and an image to its binary; each
  step can fail.\<close>

type_synonym CacheImage = "error + MachoFile"

type_synonym DyldCache = "string \<Rightarrow> error + CacheImage"

record ObjC =
  o_conf :: ObjcConfig
  o_file :: MachoFile
  o_cache :: "DyldCache option"
  o_deps :: "MachoFile list"
  o_foundation :: foundation

fun scan_images :: "DyldCache \<Rightarrow> string list \<Rightarrow> foundation \<Rightarrow> (error + unit) \<times> foundation" where
  "scan_images cache [] foundation = (Inr (), foundation)"
| "scan_images cache (name # names) foundation =
     (case cache name of
        Inl err \<Rightarrow> (Inl err, foundation)
      | Inr img \<Rightarrow>
     (case img of
        Inl err \<Rightarrow> (Inl err, foundation)
      | Inr m \<Rightarrow>
     (case unless_absent (GetObjCClasses m) of
        Inl err \<Rightarrow> (Inl err, foundation)
      | Inr classes \<Rightarrow>
          (let f1 = foundation(''classes'' \<mapsto>
                      fnd foundation ''classes'' @ map class_Name (sort_key class_Name classes))
           in case unless_absent (GetObjCProtocols m) of
                Inl err \<Rightarrow> (Inl err, f1)
              | Inr protos \<Rightarrow>
                  (let f2 = f1(''protocols'' \<mapsto>
                              fnd f1 ''protocols'' @ map proto_Name (sort_key proto_Name protos));
                       f3 = f2(''classes'' \<mapsto> Sort (fnd f2 ''classes''));
                       f4 = f3(''protocols'' \<mapsto> Sort (fnd f3 ''protocols''))
                   in scan_images cache names f4)))))"

definition scanFoundation :: "ObjC \<Rightarrow> (error + unit) \<times> ObjC" where
  "scanFoundation obj =
     (let f0 = (o_foundation obj)(''classes'' \<mapsto> [], ''protocols'' \<mapsto> []) in
      case o_cache obj of
        None \<Rightarrow> (Inr (), obj\<lparr>o_foundation := f0\<rparr>)
      | Some cache \<Rightarrow>
          (case scan_images cache [''Foundation'', ''CoreFoundation''] f0 of
             (res, f) \<Rightarrow> (res, obj\<lparr>o_foundation := f\<rparr>)))"

fun deps_loop ::
  "env \<Rightarrow> foundation \<Rightarrow> ObjcConfig \<Rightarrow> MachoFile list \<Rightarrow> fslog \<Rightarrow>
   (error + unit) \<times> ObjcConfig \<times> fslog" where
  "deps_loop E foundation conf [] log = (Inr (), conf, log)"
| "deps_loop E foundation conf (m # ms) log =
     (case writeHeaders E foundation conf m log of
        (Inl err, conf', log') \<Rightarrow> (Inl err, conf', log')
      | (Inr u, conf', log') \<Rightarrow> deps_loop E foundation conf' ms log')"

definition Headers :: "env \<Rightarrow> ObjC \<Rightarrow> fslog \<Rightarrow> (error + unit) \<times> ObjC \<times> fslog" where
  "Headers E obj log =
     (case scanFoundation obj of
        (Inl err, o1) \<Rightarrow> (Inl err, o1, log)
      | (Inr u, o1) \<Rightarrow>
          (case deps_loop E (o_foundation o1) (o_conf o1) (o_deps o1) log of
             (Inl err, conf', log') \<Rightarrow> (Inl err, o1\<lparr>o_conf := conf'\<rparr>, log')
           | (Inr u', conf', log') \<Rightarrow>
               (case writeHeaders E (o_foundation o1) conf' (o_file o1) log' of
                  (res, conf'', log'') \<Rightarrow> (res, o1\<lparr>o_conf := conf''\<rparr>, log''))))"

section \<open>Reading the include guard back\<close>

text \<open>
  The reader of the round-trip property: the guard is named by the first line that starts
  with \<open>#ifndef\<close> and a space, provided the next line defines the same name.
\<close>

definition parse_guard :: "string \<Rightarrow> string option" where
  "parse_guard out =
     (case dropWhile (\<lambda>l. \<not> HasPrefix l ''#ifndef '') (Split out (CHR 0x0A)) of
        l1 # l2 # rest \<Rightarrow>
          if l2 = ''#define '' @ drop 8 l1 then Some (drop 8 l1) else None
      | _ \<Rightarrow> None)"

section \<open>Example inputs\<close>

definition ex_foundation :: foundation where
  "ex_foundation =
     [''classes'' \<mapsto> [''NSObject'', ''NSString''], ''protocols'' \<mapsto> [''NSCopying'']]"

definition ex_raw :: Imports where
  "ex_raw =
     \<lparr>Imports = [''Foundation'', ''Foundation''],
      Locals = [''Gadget.h'', ''NSCopying-Protocol.h'', ''NSString.h'', ''Gadget.h''],
      Classes = [''Zed'', ''NSString'', ''Abc'', ''Zed''],
      Protos = [''NSCopying'', ''Mine'']\<rparr>"

text \<open>The encoding \<open>@"Name"\<close> of an ivar that points to an object.\<close>

definition quoted :: "string \<Rightarrow> string" where
  "quoted s = [CHR ''@'', CHR 0x22] @ s @ [CHR 0x22]"

definition ex_class :: "string \<Rightarrow> Class" where
  "ex_class name =
     \<lparr>class_Name = name, class_SuperClass = ''NSObject'', class_Protocols = [],
      class_Ivars = [], class_Props = [], class_InstanceMethods = [],
      class_ClassMethods = []\<rparr>"

text \<open>
  A method descriptor for a list of decoded types that starts with the return type, the
  receiver and the selector and goes on with the explicit arguments: the return type is not
  counted among the arguments, and an index outside the list gives \<open><error>\<close>.
\<close>

definition ex_method :: "string \<Rightarrow> string list \<Rightarrow> Method" where
  "ex_method name types =
     \<lparr>meth_Name = name,
      NumberOfArguments = length types - 1,
      ArgumentType = (\<lambda>i. if i < length types then types ! i else ''<error>'')\<rparr>"

definition ex_Widget :: Class where
  "ex_Widget =
     \<lparr>class_Name = ''Widget'', class_SuperClass = ''NSObject'',
      class_Protocols =
        [\<lparr>proto_Name = ''Copying'', proto_Ptr = 0x100\<rparr>,
         \<lparr>proto_Name = ''NSCopying'', proto_Ptr = 0x20\<rparr>],
      class_Ivars =
        [\<lparr>ivar_Name = ''_gadget'', ivar_Type = quoted ''Gadget''\<rparr>,
         \<lparr>ivar_Name = ''_title'', ivar_Type = quoted ''NSString''\<rparr>,
         \<lparr>ivar_Name = ''_target'', ivar_Type = quoted ''NSObject''\<rparr>,
         \<lparr>ivar_Name = ''_delegate'', ivar_Type = quoted ''<WidgetDelegate>''\<rparr>,
         \<lparr>ivar_Name = ''_count'', ivar_Type = ''Q''\<rparr>],
      class_Props =
        [\<lparr>prop_Name = ''gadget'', prop_Type = ''Gadget *''\<rparr>,
         \<lparr>prop_Name = ''title'', prop_Type = ''NSString *''\<rparr>],
      class_InstanceMethods =
        [ex_method ''gadget'' [''id'', ''id'', ''SEL''],
         ex_method ''setGadget:'' [''void'', ''id'', ''SEL'', ''Gadget *''],
         ex_method ''attach:to:'' [''void'', ''id'', ''SEL'', ''Sprocket *'', ''unsigned long'']],
      class_ClassMethods =
        [ex_method ''widgetFor:with:'' [''id'', ''id'', ''SEL'', ''Flange *'', ''unsigned long'']]\<rparr>"

text \<open>The protocol list of the example binary holds the descriptor of \<open>Copying\<close> twice.\<close>

definition ex_protos :: "Protocol list" where
  "ex_protos =
     [\<lparr>proto_Name = ''WidgetDelegate'', proto_Ptr = 0x200\<rparr>,
      \<lparr>proto_Name = ''Copying'', proto_Ptr = 0x100\<rparr>,
      \<lparr>proto_Name = ''NSCopying'', proto_Ptr = 0x20\<rparr>,
      \<lparr>proto_Name = ''Copying'', proto_Ptr = 0x100\<rparr>]"

definition ex_classes :: "Class list" where
  "ex_classes = [ex_Widget, ex_class ''Gadget'']"

definition ex_cats :: "Category list" where
  "ex_cats =
     [\<lparr>cat_Name = ''Private'', cat_Class = None\<rparr>,
      \<lparr>cat_Name = ''Additions'', cat_Class = Some (ex_class ''NSString'')\<rparr>]"

definition ex_binary :: MachoFile where
  "ex_binary =
     \<lparr>HasObjC = True,
      DylibID = Some ''/System/Library/PrivateFrameworks/Mod.framework/Mod'',
      LC_BUILD_VERSION = [''macOS 14.0'', ''iOS 17.0''],
      LC_SOURCE_VERSION = [''1.2.3''],
      GetObjCClasses = Inr ex_classes,
      GetObjCProtocols = Inr ex_protos,
      GetObjCCategories = Inr ex_cats\<rparr>"

definition ex_Foundation :: MachoFile where
  "ex_Foundation =
     \<lparr>HasObjC = True,
      DylibID = Some ''/System/Library/Frameworks/Foundation.framework/Foundation'',
      LC_BUILD_VERSION = [], LC_SOURCE_VERSION = [],
      GetObjCClasses = Inr [ex_class ''NSString'', ex_class ''NSArray''],
      GetObjCProtocols =
        Inr [\<lparr>proto_Name = ''NSObject'', proto_Ptr = 0x10\<rparr>,
             \<lparr>proto_Name = ''NSCopying'', proto_Ptr = 0x20\<rparr>],
      GetObjCCategories = Inr []\<rparr>"

definition ex_CoreFoundation :: MachoFile where
  "ex_CoreFoundation =
     \<lparr>HasObjC = True,
      DylibID = Some ''/System/Library/Frameworks/CoreFoundation.framework/CoreFoundation'',
      LC_BUILD_VERSION = [], LC_SOURCE_VERSION = [],
      GetObjCClasses = Inr [ex_class ''__NSCFString''],
      GetObjCProtocols = Inl ErrObjcSectionNotFound,
      GetObjCCategories = Inr []\<rparr>"

definition ex_cache :: DyldCache where
  "ex_cache name =
     (if name = ''Foundation'' then Inr (Inr ex_Foundation)
      else if name = ''CoreFoundation'' then Inr (Inr ex_CoreFoundation)
      else Inl (ErrOther ''image not found''))"

text \<open>A cache in which the second reference image does not load.\<close>

definition ex_broken_cache :: DyldCache where
  "ex_broken_cache name =
     (if name = ''Foundation'' then Inr (Inr ex_Foundation)
      else Inl (ErrOther ''image not found''))"

definition ex_env :: env where
  "ex_env =
     \<lparr>class_Verbose = (\<lambda>c. ''@interface '' @ class_Name c @ '' : '' @ class_SuperClass c @
          concat (map (\<lambda>i. CHR 0x0A # ''  '' @ ivar_Name i) (class_Ivars c)) @
          concat (map (\<lambda>m. CHR 0x0A # ''- '' @ meth_Name m) (class_InstanceMethods c)) @
          CHR 0x0A # ''@end''),
      proto_Verbose = (\<lambda>p. ''@protocol '' @ proto_Name p @ CHR 0x0A # ''@end''),
      cat_Verbose = (\<lambda>c. ''@interface ('' @ cat_Name c @ '')'' @ CHR 0x0A # ''@end''),
      DemangleBlob = (\<lambda>s. s),
      io = (\<lambda>log path. IoOk)\<rparr>"

definition ex_conf :: ObjcConfig where
  "ex_conf = \<lparr>conf_Name = ''a.out'', conf_IpswVersion = ''3.1.500'', conf_Output = ''out''\<rparr>"

definition ex_obj :: ObjC where
  "ex_obj =
     \<lparr>o_conf = ex_conf, o_file = ex_binary, o_cache = Some ex_cache, o_deps = [],
      o_foundation = Map.empty\<rparr>"

text \<open>The Foundation index and the import map of the example run.\<close>

definition ex_index :: foundation where
  "ex_index = o_foundation (snd (scanFoundation ex_obj))"

definition ex_imps :: "string \<rightharpoonup> Imports" where
  "ex_imps = projr (processForwardDeclarations ex_index ex_binary)"

text \<open>A binary of the module \<open>Mod\<close> with no class and one category named \<open>Mod\<close> whose class
  is not resolved.\<close>

definition ex_category_only :: MachoFile where
  "ex_category_only =
     \<lparr>HasObjC = True,
      DylibID = Some ''/System/Library/PrivateFrameworks/Mod.framework/Mod'',
      LC_BUILD_VERSION = [''macOS 14.0''],
      LC_SOURCE_VERSION = [''1.2.3''],
      GetObjCClasses = Inr [],
      GetObjCProtocols = Inr [],
      GetObjCCategories = Inr [\<lparr>cat_Name = ''Mod'', cat_Class = None\<rparr>]\<rparr>"

text \<open>The run of \<open>writeHeaders\<close> on the example binary, from an empty file system.\<close>

definition ex_run :: "(error + unit) \<times> ObjcConfig \<times> fslog" where
  "ex_run = writeHeaders ex_env ex_index ex_conf ex_binary []"

text \<open>The protocol loop and the class loop of the example, each from an empty file system.\<close>

definition ex_proto_run :: "(error + string list) \<times> fslog" where
  "ex_proto_run =
     proto_loop ex_env ex_index ex_conf [] [] Map.empty (sort_key proto_Name ex_protos) {} [] []"

definition ex_class_run :: "(error + string list) \<times> fslog" where
  "ex_class_run = class_loop ex_env ex_conf [] [] Map.empty [ex_Widget] [] []"

text \<open>The example parser without a shared cache, and with the cache whose second reference
  image does not load.\<close>

definition ex_obj_no_cache :: ObjC where
  "ex_obj_no_cache = ex_obj\<lparr>o_cache := None\<rparr>"

definition ex_obj_broken_cache :: ObjC where
  "ex_obj_broken_cache = ex_obj\<lparr>o_cache := Some ex_broken_cache\<rparr>"

text \<open>The method \<open>attach:to:\<close> of \<open>Widget\<close>, and a classification that only records the types
  it is given, in order.\<close>

definition ex_attach :: Method where
  "ex_attach =
     ex_method ''attach:to:'' [''void'', ''id'', ''SEL'', ''Sprocket *'', ''unsigned long'']"

definition record_arg :: "Imports \<Rightarrow> string \<Rightarrow> Imports" where
  "record_arg imp typ = imp\<lparr>Classes := Classes imp @ [typ]\<rparr>"

text \<open>Two class methods whose first explicit argument conforms to the protocol \<open>Flange\<close>: one
  typed as an object pointer, one as a qualified \<open>id\<close>; and a class \<open>Widget\<close> that has only the
  second.\<close>

definition ex_widgetFor :: Method where
  "ex_widgetFor =
     ex_method ''widgetFor:with:''
       [''id'', ''id'', ''SEL'', ''NSObject<Flange> *'', ''unsigned long'']"

definition ex_observe :: Method where
  "ex_observe =
     ex_method ''observe:with:'' [''void'', ''id'', ''SEL'', ''id<Flange>'', ''unsigned long'']"

definition ex_observer_class :: Class where
  "ex_observer_class = (ex_class ''Widget'')\<lparr>class_ClassMethods := [ex_observe]\<rparr>"

text \<open>Two categories named \<open>Additions\<close>, on two classes, and a binary that holds a given
  list of categories and nothing else.\<close>

definition ex_same_name_cats :: "Category list" where
  "ex_same_name_cats =
     [\<lparr>cat_Name = ''Additions'', cat_Class = Some (ex_class ''NSString'')\<rparr>,
      \<lparr>cat_Name = ''Additions'', cat_Class = Some (ex_class ''NSArray'')\<rparr>]"

definition ex_cats_binary :: "Category list \<Rightarrow> MachoFile" where
  "ex_cats_binary cats =
     \<lparr>HasObjC = True,
      DylibID = Some ''/System/Library/PrivateFrameworks/Mod.framework/Mod'',
      LC_BUILD_VERSION = [''macOS 14.0''],
      LC_SOURCE_VERSION = [''1.2.3''],
      GetObjCClasses = Inr [],
      GetObjCProtocols = Inr [],
      GetObjCCategories = Inr cats\<rparr>"

text \<open>The umbrella header of a module \<open>Mod\<close> that also has a header \<open>Mod.h\<close>.\<close>

definition ex_umbrella :: headerInfo where
  "ex_umbrella =
     umbrella_headerInfo (ex_conf\<lparr>conf_Name := ''Mod''\<rparr>) [''macOS 14.0'', ''iOS 17.0''] ''1.2.3''
       [''Mod.h'', ''Widget.h'']"

section \<open>Binary search on a sorted slice\<close>

lemma BinarySearch_loop_inv:
  assumes "sorted x" "i \<le> j" "j \<le> length x"
    and "\<forall>k<i. x ! k < target"
    and "\<forall>k. j \<le> k \<and> k < length x \<longrightarrow> target \<le> x ! k"
  shows "BinarySearch_loop x target i j \<le> length x
    \<and> (\<forall>k<BinarySearch_loop x target i j. x ! k < target)
    \<and> (\<forall>k. BinarySearch_loop x target i j \<le> k \<and> k < length x \<longrightarrow> target \<le> x ! k)"
  using assms
proof (induction x target i j rule: BinarySearch_loop.induct)
  case (1 x target i j)
  show ?case
  proof (cases "i < j")
    case False
    with "1.prems" have "i = j" by simp
    with "1.prems" show ?thesis by (simp add: BinarySearch_loop.simps[of x target j j])
  next
    case True
    define h where "h = (i + j) div 2"
    have hb: "i \<le> h" "h < j" using True by (simp_all add: h_def)
    show ?thesis
    proof (cases "x ! h < target")
      case lt: True
      have below: "\<forall>k<h + 1. x ! k < target"
      proof (intro allI impI)
        fix k assume "k < h + 1"
        then have "k \<le> h" by simp
        moreover have "h < length x" using hb "1.prems" by simp
        ultimately have "x ! k \<le> x ! h" using \<open>sorted x\<close> by (simp add: sorted_nth_mono)
        with lt show "x ! k < target" by simp
      qed
      have "BinarySearch_loop x target i j = BinarySearch_loop x target (h + 1) j"
        using True lt by (simp add: BinarySearch_loop.simps[of x target i j] h_def Let_def)
      moreover have "BinarySearch_loop x target (h + 1) j \<le> length x
        \<and> (\<forall>k<BinarySearch_loop x target (h + 1) j. x ! k < target)
        \<and> (\<forall>k. BinarySearch_loop x target (h + 1) j \<le> k \<and> k < length x \<longrightarrow> target \<le> x ! k)"
        using "1.IH"(1)[OF True h_def lt \<open>sorted x\<close> _ _ below] hb "1.prems" by simp
      ultimately show ?thesis by simp
    next
      case ge: False
      have above: "\<forall>k. h \<le> k \<and> k < length x \<longrightarrow> target \<le> x ! k"
      proof (intro allI impI)
        fix k assume "h \<le> k \<and> k < length x"
        then have "x ! h \<le> x ! k" using \<open>sorted x\<close> by (simp add: sorted_nth_mono)
        with ge show "target \<le> x ! k" by simp
      qed
      have "BinarySearch_loop x target i j = BinarySearch_loop x target i h"
        using True ge by (simp add: BinarySearch_loop.simps[of x target i j] h_def Let_def)
      moreover have "BinarySearch_loop x target i h \<le> length x
        \<and> (\<forall>k<BinarySearch_loop x target i h. x ! k < target)
        \<and> (\<forall>k. BinarySearch_loop x target i h \<le> k \<and> k < length x \<longrightarrow> target \<le> x ! k)"
        using "1.IH"(2)[OF True h_def ge \<open>sorted x\<close> _ _ _ above] hb "1.prems" by simp
      ultimately show ?thesis by simp
    qed
  qed
qed

lemma BinarySearch_found_iff:
  assumes "sorted x"
  shows "snd (BinarySearch x target) \<longleftrightarrow> target \<in> set x"
proof -
  define r where "r = BinarySearch_loop x target 0 (length x)"
  have "r \<le> length x \<and> (\<forall>k<r. x ! k < target)
    \<and> (\<forall>k. r \<le> k \<and> k < length x \<longrightarrow> target \<le> x ! k)"
    unfolding r_def by (rule BinarySearch_loop_inv[OF assms]) auto
  then have inv: "r \<le> length x" "\<forall>k<r. x ! k < target"
    "\<forall>k. r \<le> k \<and> k < length x \<longrightarrow> target \<le> x ! k"
    by simp_all
  have found: "snd (BinarySearch x target) \<longleftrightarrow> r < length x \<and> x ! r = target"
    by (simp add: BinarySearch_def Let_def r_def)
  show ?thesis
  proof
    assume "snd (BinarySearch x target)"
    with found show "target \<in> set x" by (metis nth_mem)
  next
    assume "target \<in> set x"
    then obtain k where k: "k < length x" "x ! k = target" by (auto simp: in_set_conv_nth)
    have "\<not> k < r" using inv(2) k by auto
    then have rk: "r \<le> k" by simp
    then have "r < length x" using k by simp
    moreover have "x ! r \<le> x ! k" by (rule sorted_nth_mono[OF assms rk k(1)])
    moreover have "target \<le> x ! r" using inv(3) \<open>r < length x\<close> by simp
    ultimately show "snd (BinarySearch x target)" using found k by simp
  qed
qed

lemma BinarySearch_Nil: "snd (BinarySearch [] target) = False"
  by (simp add: BinarySearch_def BinarySearch_loop.simps)

section \<open>Normalisation is idempotent\<close>

lemma Compact_Sort_sorted: "sorted (Compact (Sort xs))"
  by (simp add: Compact_def Sort_def sorted_remdups_adj)

lemma sorted_distinct_remdups_adj: "sorted xs \<Longrightarrow> distinct (remdups_adj xs)"
proof (induction xs rule: remdups_adj.induct)
  case (3 x y xs)
  then show ?case by (cases "x = y") auto
qed simp_all

lemma Compact_Sort_distinct: "distinct (Compact (Sort xs))"
  by (simp add: Compact_def Sort_def sorted_distinct_remdups_adj)

lemma Compact_Sort_id: "sorted ys \<Longrightarrow> distinct ys \<Longrightarrow> Compact (Sort ys) = ys"
  by (simp add: Compact_def Sort_def sorted_sort_id remdups_adj_distinct)

lemma DeleteFunc_sorted: "sorted ys \<Longrightarrow> sorted (DeleteFunc ys del)"
  by (simp add: DeleteFunc_def sorted_wrt_filter)

lemma DeleteFunc_distinct: "distinct ys \<Longrightarrow> distinct (DeleteFunc ys del)"
  by (simp add: DeleteFunc_def)

lemma DeleteFunc_idem: "DeleteFunc (DeleteFunc ys del) del = DeleteFunc ys del"
  by (simp add: DeleteFunc_def)

lemma normal_form_fixed:
  "Compact (Sort (DeleteFunc (Compact (Sort xs)) del)) = DeleteFunc (Compact (Sort xs)) del"
  by (intro Compact_Sort_id DeleteFunc_sorted DeleteFunc_distinct Compact_Sort_sorted
      Compact_Sort_distinct)

lemma Compact_Sort_idem: "Compact (Sort (Compact (Sort xs))) = Compact (Sort xs)"
  by (intro Compact_Sort_id Compact_Sort_sorted Compact_Sort_distinct)

text \<open>
  C3. Normalisation is idempotent: for every raw Imports value and every Foundation index,
  applying \<open>uniq\<close> to an already normalised value leaves all four sets unchanged.
\<close>

theorem uniq_idempotent: "uniq foundation (uniq foundation x) = uniq foundation x"
  by (simp add: uniq_def Let_def normal_form_fixed Compact_Sort_idem DeleteFunc_idem)

theorem uniq_idempotent_witness:
  "uniq ex_foundation ex_raw =
     \<lparr>Imports = [''Foundation''], Locals = [''Gadget.h''], Classes = [''Abc'', ''Zed''],
      Protos = [''Mine'']\<rparr>
   \<and> uniq ex_foundation (uniq ex_foundation ex_raw) = uniq ex_foundation ex_raw"
proof -
  have "uniq ex_foundation ex_raw =
     \<lparr>Imports = [''Foundation''], Locals = [''Gadget.h''], Classes = [''Abc'', ''Zed''],
      Protos = [''Mine'']\<rparr>"
    by code_simp
  then show ?thesis using uniq_idempotent [of ex_foundation ex_raw] by simp
qed

section \<open>The Foundation index\<close>

lemma fnd_upd: "fnd (f(k \<mapsto> v)) k' = (if k' = k then v else fnd f k')"
  by (simp add: fnd_def)

lemma scan_images_sorted:
  "scan_images cache names f = (Inr (), f') \<Longrightarrow>
   sorted (fnd f ''classes'') \<and> sorted (fnd f ''protocols'') \<Longrightarrow>
   sorted (fnd f' ''classes'') \<and> sorted (fnd f' ''protocols'')"
proof (induction names arbitrary: f)
  case Nil
  then show ?case by simp
next
  case (Cons name names)
  from Cons.prems(1) show ?case
    by (auto simp: Let_def fnd_def Sort_def split: sum.splits dest!: Cons.IH)
qed

lemma scanFoundation_sorted:
  assumes "scanFoundation obj = (Inr (), obj1)"
  shows "sorted (fnd (o_foundation obj1) ''classes'') \<and> sorted (fnd (o_foundation obj1) ''protocols'')"
proof (cases "o_cache obj")
  case None
  with assms show ?thesis by (auto simp: scanFoundation_def Let_def fnd_upd)
next
  case (Some cache)
  with assms obtain f where
    f: "scan_images cache [''Foundation'', ''CoreFoundation'']
          ((o_foundation obj)(''classes'' \<mapsto> [], ''protocols'' \<mapsto> [])) = (Inr (), f)"
    and o1: "obj1 = obj\<lparr>o_foundation := f\<rparr>"
    by (auto simp: scanFoundation_def Let_def split: prod.splits)
  from scan_images_sorted[OF f] o1 show ?thesis by (simp add: fnd_upd)
qed

lemma scan_images_fails:
  "name \<in> set names \<Longrightarrow> \<forall>m. cache name \<noteq> Inr (Inr m) \<Longrightarrow>
   isl (fst (scan_images cache names f))"
proof (induction names arbitrary: f)
  case Nil
  then show ?case by simp
next
  case (Cons n names)
  show ?case
  proof (cases "n = name")
    case True
    with Cons.prems(2) show ?thesis
      by (auto simp: Let_def split: sum.splits)
  next
    case False
    with Cons.prems have "name \<in> set names" by simp
    from Cons.IH[OF this Cons.prems(2)] show ?thesis
      by (auto simp: Let_def split: sum.splits)
  qed
qed

text \<open>
  C9. Without a shared cache, building the Foundation index succeeds with two empty name sets,
  and normalisation then filters nothing; with a cache, when either of the two reference
  images (\<open>Foundation\<close>, \<open>CoreFoundation\<close>) fails to load, the whole of \<open>Headers\<close> fails and
  writes no file.
\<close>

theorem foundation_index_absent_or_fatal:
  "(o_cache obj = None \<longrightarrow>
      fst (scanFoundation obj) = Inr ()
      \<and> fnd (o_foundation (snd (scanFoundation obj))) ''classes'' = []
      \<and> fnd (o_foundation (snd (scanFoundation obj))) ''protocols'' = []
      \<and> (\<forall>x. uniq (o_foundation (snd (scanFoundation obj))) x =
            \<lparr>Imports = Compact (Sort (Imports x)), Locals = Compact (Sort (Locals x)),
             Classes = Compact (Sort (Classes x)), Protos = Compact (Sort (Protos x))\<rparr>))
   \<and> (\<forall>cache name.
        o_cache obj = Some cache \<and> name \<in> {''Foundation'', ''CoreFoundation''}
        \<and> (\<forall>m. cache name \<noteq> Inr (Inr m)) \<longrightarrow>
        isl (fst (Headers E obj log)) \<and> snd (snd (Headers E obj log)) = log)"
proof (intro conjI impI allI)
  assume "o_cache obj = None"
  then show "fst (scanFoundation obj) = Inr ()"
    and c: "fnd (o_foundation (snd (scanFoundation obj))) ''classes'' = []"
    and p: "fnd (o_foundation (snd (scanFoundation obj))) ''protocols'' = []"
    by (simp_all add: scanFoundation_def fnd_upd)
  fix x
  show "uniq (o_foundation (snd (scanFoundation obj))) x =
            \<lparr>Imports = Compact (Sort (Imports x)), Locals = Compact (Sort (Locals x)),
             Classes = Compact (Sort (Classes x)), Protos = Compact (Sort (Protos x))\<rparr>"
    by (simp add: uniq_def Let_def c p BinarySearch_Nil DeleteFunc_def)
next
  fix cache name
  assume h: "o_cache obj = Some cache \<and> name \<in> {''Foundation'', ''CoreFoundation''}
        \<and> (\<forall>m. cache name \<noteq> Inr (Inr m))"
  then have "isl (fst (scan_images cache [''Foundation'', ''CoreFoundation'']
       ((o_foundation obj)(''classes'' \<mapsto> [], ''protocols'' \<mapsto> []))))"
    by (intro scan_images_fails[of name]) auto
  with h have "isl (fst (scanFoundation obj))"
    by (auto simp: scanFoundation_def Let_def split: prod.splits)
  then show "isl (fst (Headers E obj log))" and "snd (snd (Headers E obj log)) = log"
    by (auto simp: Headers_def isl_def split: prod.splits sum.splits)
qed

theorem foundation_index_absent_or_fatal_witness:
  "o_cache ex_obj_no_cache = None
   \<and> fst (scanFoundation ex_obj_no_cache) = Inr ()
   \<and> fnd (o_foundation (snd (scanFoundation ex_obj_no_cache))) ''classes'' = []
   \<and> fnd (o_foundation (snd (scanFoundation ex_obj_no_cache))) ''protocols'' = []
   \<and> uniq (o_foundation (snd (scanFoundation ex_obj_no_cache))) ex_raw =
       \<lparr>Imports = Compact (Sort (Imports ex_raw)), Locals = Compact (Sort (Locals ex_raw)),
        Classes = Compact (Sort (Classes ex_raw)), Protos = Compact (Sort (Protos ex_raw))\<rparr>
   \<and> fst (Headers ex_env ex_obj_no_cache []) = Inr ()
   \<and> o_cache ex_obj_broken_cache = Some ex_broken_cache
   \<and> ex_broken_cache ''CoreFoundation'' = Inl (ErrOther ''image not found'')
   \<and> fst (Headers ex_env ex_obj_broken_cache []) = Inl (ErrOther ''image not found'')
   \<and> isl (fst (Headers ex_env ex_obj_broken_cache []))
   \<and> snd (snd (Headers ex_env ex_obj_broken_cache [])) = []"
proof -
  have a: "o_cache ex_obj_no_cache = None" by (simp add: ex_obj_no_cache_def)
  have b: "o_cache ex_obj_broken_cache = Some ex_broken_cache"
    by (simp add: ex_obj_broken_cache_def)
  have c: "ex_broken_cache ''CoreFoundation'' = Inl (ErrOther ''image not found'')"
    by (simp add: ex_broken_cache_def)
  then have d: "\<forall>m. ex_broken_cache ''CoreFoundation'' \<noteq> Inr (Inr m)" by simp
  have e: "fst (Headers ex_env ex_obj_no_cache []) = Inr ()"
    "fst (Headers ex_env ex_obj_broken_cache []) = Inl (ErrOther ''image not found'')"
    by code_simp+
  have f: "''CoreFoundation'' \<in> {''Foundation'', ''CoreFoundation''}" by simp
  from foundation_index_absent_or_fatal [of ex_obj_no_cache ex_env "[]"]
    foundation_index_absent_or_fatal [of ex_obj_broken_cache ex_env "[]"] a b c d e f
  show ?thesis by blast
qed

section \<open>Suppression of Foundation names\<close>

lemma foldl_map_upd_cases:
  "foldl (\<lambda>imps c. imps(k c \<mapsto> g c)) M cs name = Some v \<Longrightarrow>
   M name = Some v \<or> v \<in> g ` set cs"
proof (induction cs arbitrary: M)
  case Nil
  then show ?case by simp
next
  case (Cons c cs)
  from Cons.prems have "foldl (\<lambda>imps c. imps(k c \<mapsto> g c)) (M(k c \<mapsto> g c)) cs name = Some v"
    by (simp only: foldl.simps)
  from Cons.IH[OF this] show ?case by (auto split: if_splits)
qed

lemma processForwardDeclarations_entries:
  assumes "processForwardDeclarations foundation m = Inr imps"
  shows "imps_at imps name = Imports_zero \<or> (\<exists>raw. imps_at imps name = uniq foundation raw)"
proof (cases "imps name")
  case None
  then show ?thesis by (simp add: imps_at_def)
next
  case (Some v)
  from assms obtain cs cn pn where
    "imps = foldl (\<lambda>imps class. imps(class_Name class \<mapsto> class_imports foundation cn pn class)) Map.empty cs"
    by (auto simp: processForwardDeclarations_def Let_def split: sum.splits)
  with Some have "v \<in> (\<lambda>class. class_imports foundation cn pn class) ` set cs"
    using foldl_map_upd_cases[of class_Name "class_imports foundation cn pn" Map.empty cs name v]
    by simp
  then obtain raw where "v = uniq foundation raw"
    by (auto simp: class_imports_def Let_def)
  with Some show ?thesis by (auto simp: imps_at_def)
qed

lemma set_uniq_Classes:
  "set (Classes (uniq foundation x)) =
     {c \<in> set (Classes x). \<not> snd (BinarySearch (fnd foundation ''classes'') c)}"
  by (auto simp: uniq_def Let_def DeleteFunc_def Compact_def Sort_def)

lemma set_uniq_Protos:
  "set (Protos (uniq foundation x)) =
     {c \<in> set (Protos x). \<not> snd (BinarySearch (fnd foundation ''protocols'') c)}"
  by (auto simp: uniq_def Let_def DeleteFunc_def Compact_def Sort_def)

lemma set_uniq_Locals:
  "set (Locals (uniq foundation x)) =
     {l \<in> set (Locals x).
        \<not> (snd (BinarySearch (fnd foundation ''classes'') (TrimSuffix (TrimSuffix l ''-Protocol.h'') ''.h''))
         \<or> snd (BinarySearch (fnd foundation ''protocols'') (TrimSuffix (TrimSuffix l ''-Protocol.h'') ''.h'')))}"
  by (auto simp: uniq_def Let_def DeleteFunc_def Compact_def Sort_def)

lemma uniq_suppresses:
  assumes "sorted (fnd foundation ''classes'')" "sorted (fnd foundation ''protocols'')"
  shows "set (Classes (uniq foundation x)) \<inter> set (fnd foundation ''classes'') = {}"
    and "set (Protos (uniq foundation x)) \<inter> set (fnd foundation ''protocols'') = {}"
    and "(\<lambda>l. TrimSuffix (TrimSuffix l ''-Protocol.h'') ''.h'') ` set (Locals (uniq foundation x))
          \<inter> (set (fnd foundation ''classes'') \<union> set (fnd foundation ''protocols'')) = {}"
  using assms
  by (auto simp: set_uniq_Classes set_uniq_Protos set_uniq_Locals BinarySearch_found_iff)

text \<open>
  C2 (amended). After normalisation, for the Foundation index that \<open>scanFoundation\<close> builds and
  for the Imports value of every entity, no name of the Foundation class set is in the rendered
  Classes set, no name of the Foundation protocol set is in the rendered Protos set, and no
  Locals entry, with its \<open>-Protocol.h\<close> and \<open>.h\<close> suffixes stripped, is in either Foundation
  set. (The Classes set is not filtered against the protocol set, nor the Protos set against
  the class set.)
\<close>

theorem suppression_per_set:
  assumes "scanFoundation obj = (Inr (), obj1)"
    and "processForwardDeclarations (o_foundation obj1) m = Inr imps"
  shows "set (Classes (imps_at imps name)) \<inter> set (fnd (o_foundation obj1) ''classes'') = {}
    \<and> set (Protos (imps_at imps name)) \<inter> set (fnd (o_foundation obj1) ''protocols'') = {}
    \<and> (\<lambda>l. TrimSuffix (TrimSuffix l ''-Protocol.h'') ''.h'') ` set (Locals (imps_at imps name))
          \<inter> (set (fnd (o_foundation obj1) ''classes'') \<union> set (fnd (o_foundation obj1) ''protocols'')) = {}"
proof -
  note srt = scanFoundation_sorted[OF assms(1)]
  from processForwardDeclarations_entries[OF assms(2), of name]
  show ?thesis
  proof
    assume "imps_at imps name = Imports_zero"
    then show ?thesis by (simp add: Imports_zero_def)
  next
    assume "\<exists>raw. imps_at imps name = uniq (o_foundation obj1) raw"
    then obtain raw where "imps_at imps name = uniq (o_foundation obj1) raw" ..
    then show ?thesis
      using uniq_suppresses[of "o_foundation obj1" raw] srt by simp
  qed
qed

theorem suppression_per_set_witness:
  "scanFoundation ex_obj = (Inr (), snd (scanFoundation ex_obj))
   \<and> processForwardDeclarations ex_index ex_binary = Inr ex_imps
   \<and> fnd ex_index ''classes'' = [''NSArray'', ''NSString'', ''__NSCFString'']
   \<and> fnd ex_index ''protocols'' = [''NSCopying'', ''NSObject'']
   \<and> imps_at ex_imps ''Widget'' =
       \<lparr>Imports = [''Foundation''],
        Locals = [''Copying-Protocol.h'', ''Gadget.h'', ''WidgetDelegate-Protocol.h''],
        Classes = [''Flange *'', ''NSObject'', ''Sprocket *''], Protos = []\<rparr>
   \<and> set (Classes (imps_at ex_imps ''Widget'')) \<inter> set (fnd ex_index ''classes'') = {}
   \<and> set (Protos (imps_at ex_imps ''Widget'')) \<inter> set (fnd ex_index ''protocols'') = {}
   \<and> (\<lambda>l. TrimSuffix (TrimSuffix l ''-Protocol.h'') ''.h'') ` set (Locals (imps_at ex_imps ''Widget''))
          \<inter> (set (fnd ex_index ''classes'') \<union> set (fnd ex_index ''protocols'')) = {}"
proof -
  have "fst (scanFoundation ex_obj) = Inr ()" by code_simp
  then have a: "scanFoundation ex_obj = (Inr (), snd (scanFoundation ex_obj))"
    by (metis prod.collapse)
  have "\<not> isl (processForwardDeclarations ex_index ex_binary)" by code_simp
  then have b: "processForwardDeclarations ex_index ex_binary = Inr ex_imps"
    by (simp add: ex_imps_def)
  have c: "fnd ex_index ''classes'' = [''NSArray'', ''NSString'', ''__NSCFString'']"
    "fnd ex_index ''protocols'' = [''NSCopying'', ''NSObject'']"
    by code_simp+
  have d: "imps_at ex_imps ''Widget'' =
       \<lparr>Imports = [''Foundation''],
        Locals = [''Copying-Protocol.h'', ''Gadget.h'', ''WidgetDelegate-Protocol.h''],
        Classes = [''Flange *'', ''NSObject'', ''Sprocket *''], Protos = []\<rparr>"
    by code_simp
  from suppression_per_set [OF a b[unfolded ex_index_def], of "''Widget''", folded ex_index_def]
  show ?thesis using a b c d by blast
qed

text \<open>
  The claim as written fails: \<open>NSObject\<close> is in the Foundation protocol set of the example
  and stays in the rendered Classes set of \<open>Widget\<close>, whose ivar \<open>_target\<close> has the type
  \<open>@"NSObject"\<close>.
\<close>

theorem foundation_protocol_name_kept_in_Classes:
  "''NSObject'' \<in> set (fnd ex_index ''protocols'')
   \<and> ''NSObject'' \<in> set (Classes (imps_at ex_imps ''Widget''))"
  by code_simp

section \<open>The walk over the arguments of a method\<close>

lemma arg_loop_from:
  "1 \<le> i \<Longrightarrow>
   arg_loop step meth i imp =
     foldl step imp (map (ArgumentType meth) [i..<NumberOfArguments meth])"
proof (induction step meth i imp rule: arg_loop.induct)
  case (1 step meth i imp)
  show ?case
  proof (cases "i < NumberOfArguments meth")
    case True
    from "1.prems" have i0: "i \<noteq> 0" by simp
    have "arg_loop step meth i imp = arg_loop step meth (i + 1) (step imp (ArgumentType meth i))"
      using True i0 by (simp add: arg_loop.simps[of step meth i imp] Let_def)
    also have "\<dots> = foldl step (step imp (ArgumentType meth i))
        (map (ArgumentType meth) [i + 1..<NumberOfArguments meth])"
      using "1.IH"[OF True refl refl refl] i0 by simp
    finally show ?thesis using True by (simp add: upt_conv_Cons)
  next
    case False
    then show ?thesis
      by (simp add: arg_loop.simps[of step meth i imp])
  qed
qed

lemma arg_loop_from_zero:
  "arg_loop step meth 0 imp =
     foldl step imp
       (map (ArgumentType meth)
          (if NumberOfArguments meth = 0 then [] else 0 # [3..<NumberOfArguments meth]))"
proof (cases "NumberOfArguments meth = 0")
  case True
  then show ?thesis by (simp add: arg_loop.simps[of step meth 0 imp])
next
  case False
  then have "arg_loop step meth 0 imp = arg_loop step meth 3 (step imp (ArgumentType meth 0))"
    by (simp add: arg_loop.simps[of step meth 0 imp] Let_def numeral_3_eq_3)
  also have "\<dots> = foldl step (step imp (ArgumentType meth 0))
      (map (ArgumentType meth) [3..<NumberOfArguments meth])"
    by (rule arg_loop_from) simp
  finally show ?thesis using False by simp
qed

lemma visited_indices: "filter (\<lambda>i. i = 0 \<or> 3 \<le> i) [0..<n] = (if n = 0 then [] else 0 # [3..<n])"
  by (induction n) auto

text \<open>
  C1 (amended). For every instance or class method, the walk classifies the argument type at
  index 0 and then at every index from 3 on (3, 4, ...) below the bound \<open>NumberOfArguments()\<close>
  of its loop, in this order: after index 0 it skips the two indices 1 and 2, and below the
  bound no other index goes unclassified. The statement holds of the loop with any
  classification, so of the instance-method walk and of the class-method walk.
\<close>

theorem method_walk_visits_0_and_3_onward:
  "arg_loop step meth 0 imp =
     foldl step imp
       (map (ArgumentType meth)
          (filter (\<lambda>i. i = 0 \<or> 3 \<le> i) [0..<NumberOfArguments meth]))"
  by (simp only: visited_indices arg_loop_from_zero)

theorem method_walk_visits_0_and_3_onward_witness:
  "NumberOfArguments ex_attach = 4
   \<and> filter (\<lambda>i. i = 0 \<or> 3 \<le> i) [0..<NumberOfArguments ex_attach] = [0, 3]
   \<and> map (ArgumentType ex_attach) [0, 1, 2, 3] = [''void'', ''id'', ''SEL'', ''Sprocket *'']
   \<and> arg_loop (instance_arg_step [] []) ex_attach 0 Imports_zero =
       foldl (instance_arg_step [] []) Imports_zero
         (map (ArgumentType ex_attach)
            (filter (\<lambda>i. i = 0 \<or> 3 \<le> i) [0..<NumberOfArguments ex_attach]))
   \<and> arg_loop (instance_arg_step [] []) ex_attach 0 Imports_zero =
       Imports_zero\<lparr>Classes := [''Sprocket *'']\<rparr>
   \<and> arg_loop (class_arg_step []) ex_attach 0 Imports_zero =
       Imports_zero\<lparr>Classes := [''Sprocket *'']\<rparr>"
proof -
  have a: "NumberOfArguments ex_attach = 4"
    "filter (\<lambda>i. i = 0 \<or> 3 \<le> i) [0..<NumberOfArguments ex_attach] = [0, 3]"
    "map (ArgumentType ex_attach) [0, 1, 2, 3] = [''void'', ''id'', ''SEL'', ''Sprocket *'']"
    "arg_loop (instance_arg_step [] []) ex_attach 0 Imports_zero =
       Imports_zero\<lparr>Classes := [''Sprocket *'']\<rparr>"
    "arg_loop (class_arg_step []) ex_attach 0 Imports_zero =
       Imports_zero\<lparr>Classes := [''Sprocket *'']\<rparr>"
    by code_simp+
  from method_walk_visits_0_and_3_onward [of "instance_arg_step [] []" ex_attach Imports_zero] a
  show ?thesis by blast
qed

text \<open>
  The claim as written fails at index 2: of the method \<open>attach:to:\<close>, whose
  \<open>NumberOfArguments()\<close> is 4, the walk hands the types at the indices 0 and 3 to its
  classification, and neither the type at index 1 nor the type at index 2.
\<close>

theorem method_walk_skips_index_two:
  "NumberOfArguments ex_attach = 4
   \<and> map (ArgumentType ex_attach) [0, 1, 2, 3] = [''void'', ''id'', ''SEL'', ''Sprocket *'']
   \<and> Classes (arg_loop record_arg ex_attach 0 Imports_zero) = [''void'', ''Sprocket *'']
   \<and> Classes (arg_loop record_arg ex_attach 0 Imports_zero) \<noteq>
       map (ArgumentType ex_attach) [0, 2, 3]
   \<and> ArgumentType ex_attach 2 \<notin> set (Classes (arg_loop record_arg ex_attach 0 Imports_zero))"
  by code_simp

lemma foldl_class_arg_step:
  "Classes (foldl (class_arg_step cn) imp ts) =
      Classes imp @ filter (\<lambda>t. looksLikeObject t \<and> t \<notin> set cn) ts
   \<and> Locals (foldl (class_arg_step cn) imp ts) =
      Locals imp @ map (\<lambda>t. t @ ''.h'') (filter (\<lambda>t. looksLikeObject t \<and> t \<in> set cn) ts)
   \<and> Imports (foldl (class_arg_step cn) imp ts) = Imports imp
   \<and> Protos (foldl (class_arg_step cn) imp ts) = Protos imp"
  by (induction ts arbitrary: imp) (simp_all add: class_arg_step_def)

lemma protocol_suffix_is_no_object: "\<not> looksLikeObject (name @ ''-Protocol'')"
  by (simp add: looksLikeObject_def HasSuffix_def)

lemma instance_step_is_class_step_but_for_protocols:
  "instance_arg_step classNames protoNames imp typ =
     (if looksLikeObject typ \<and> typ \<notin> set classNames
         \<and> Trim typ ''NSObject<>'' \<in> set protoNames
      then imp\<lparr>Locals := Locals imp @ [Trim typ ''NSObject<>'' @ ''-Protocol.h'']\<rparr>
      else class_arg_step classNames imp typ)"
  by (simp add: instance_arg_step_def class_arg_step_def)

text \<open>
  C10 (amended). A class-method argument type is never resolved to a local protocol include:
  only the instance-method walk consults the known-protocol set. Every Locals entry that the
  class-method walk adds is the \<open>.h\<close> include of a known class, none has the form
  \<open><Name>-Protocol.h\<close>, and the walk adds no Protos entry. For every class method, an argument
  type that the walk classifies (at index 0, or at an index from 3 on below
  \<open>NumberOfArguments()\<close>), that passes the object-pointer test and that is not the name of a
  local class is added to the Classes set rather than to Locals, whether or not it names a
  known protocol. The classification of the instance-method walk is that of the class-method
  walk but for its \<open>-Protocol.h\<close> branch.
\<close>

theorem class_method_walk_has_no_protocol_branch:
  "(\<exists>ts. set ts \<subseteq> set classNames
       \<and> Locals (arg_loop (class_arg_step classNames) meth 0 imp) =
           Locals imp @ map (\<lambda>t. t @ ''.h'') ts
       \<and> (\<forall>name. name @ ''-Protocol.h'' \<notin> set (map (\<lambda>t. t @ ''.h'') ts)))
   \<and> Protos (arg_loop (class_arg_step classNames) meth 0 imp) = Protos imp
   \<and> (\<forall>i<NumberOfArguments meth.
         (i = 0 \<or> 3 \<le> i) \<and> looksLikeObject (ArgumentType meth i)
         \<and> ArgumentType meth i \<notin> set classNames \<longrightarrow>
         ArgumentType meth i
           \<in> set (Classes (arg_loop (class_arg_step classNames) meth 0 imp)))
   \<and> (\<forall>protoNames imp' typ.
         instance_arg_step classNames protoNames imp' typ =
           (if looksLikeObject typ \<and> typ \<notin> set classNames
               \<and> Trim typ ''NSObject<>'' \<in> set protoNames
            then imp'\<lparr>Locals := Locals imp' @ [Trim typ ''NSObject<>'' @ ''-Protocol.h'']\<rparr>
            else class_arg_step classNames imp' typ))"
proof -
  define ts where "ts = map (ArgumentType meth)
     (filter (\<lambda>i. i = 0 \<or> 3 \<le> i) [0..<NumberOfArguments meth])"
  have walk: "arg_loop (class_arg_step classNames) meth 0 imp =
      foldl (class_arg_step classNames) imp ts"
    unfolding ts_def by (simp only: visited_indices arg_loop_from_zero)
  have locals: "\<exists>ts. set ts \<subseteq> set classNames
       \<and> Locals (arg_loop (class_arg_step classNames) meth 0 imp) =
           Locals imp @ map (\<lambda>t. t @ ''.h'') ts
       \<and> (\<forall>name. name @ ''-Protocol.h'' \<notin> set (map (\<lambda>t. t @ ''.h'') ts))"
  proof (intro exI conjI allI)
    let ?ts = "filter (\<lambda>t. looksLikeObject t \<and> t \<in> set classNames) ts"
    show "set ?ts \<subseteq> set classNames" by auto
    show "Locals (arg_loop (class_arg_step classNames) meth 0 imp) =
        Locals imp @ map (\<lambda>t. t @ ''.h'') ?ts"
      unfolding walk by (simp only: foldl_class_arg_step)
    show "name @ ''-Protocol.h'' \<notin> set (map (\<lambda>t. t @ ''.h'') ?ts)" for name
      by (auto simp: protocol_suffix_is_no_object)
  qed
  have protos: "Protos (arg_loop (class_arg_step classNames) meth 0 imp) = Protos imp"
    unfolding walk by (simp only: foldl_class_arg_step)
  have classes: "ArgumentType meth i
      \<in> set (Classes (arg_loop (class_arg_step classNames) meth 0 imp))"
    if "i < NumberOfArguments meth" "i = 0 \<or> 3 \<le> i" "looksLikeObject (ArgumentType meth i)"
      "ArgumentType meth i \<notin> set classNames" for i
  proof -
    from that(1,2) have "i \<in> set (filter (\<lambda>i. i = 0 \<or> 3 \<le> i) [0..<NumberOfArguments meth])"
      by auto
    then have "ArgumentType meth i \<in> set ts"
      unfolding ts_def set_map by (rule imageI)
    with that(3,4) show ?thesis
      unfolding walk by (simp only: foldl_class_arg_step set_append set_filter) simp
  qed
  from locals protos classes instance_step_is_class_step_but_for_protocols
  show ?thesis by blast
qed

theorem class_method_walk_has_no_protocol_branch_witness:
  "(3::nat) < NumberOfArguments ex_widgetFor
   \<and> ArgumentType ex_widgetFor 3 = ''NSObject<Flange> *''
   \<and> looksLikeObject (ArgumentType ex_widgetFor 3)
   \<and> ArgumentType ex_widgetFor 3 \<notin> set [''Gadget'', ''Widget'']
   \<and> arg_loop (class_arg_step [''Gadget'', ''Widget'']) ex_widgetFor 0 Imports_zero =
       Imports_zero\<lparr>Classes := [''NSObject<Flange> *'']\<rparr>
   \<and> ArgumentType ex_widgetFor 3
       \<in> set (Classes (arg_loop (class_arg_step [''Gadget'', ''Widget'']) ex_widgetFor 0 Imports_zero))
   \<and> (\<exists>ts. set ts \<subseteq> set [''Gadget'', ''Widget'']
         \<and> Locals (arg_loop (class_arg_step [''Gadget'', ''Widget'']) ex_widgetFor 0 Imports_zero) =
             Locals Imports_zero @ map (\<lambda>t. t @ ''.h'') ts)
   \<and> Protos (arg_loop (class_arg_step [''Gadget'', ''Widget'']) ex_widgetFor 0 Imports_zero) =
       Protos Imports_zero
   \<and> instance_arg_step [''Gadget'', ''Widget''] [''Flange''] Imports_zero
         (ArgumentType ex_widgetFor 3) =
       class_arg_step [''Gadget'', ''Widget''] Imports_zero (ArgumentType ex_widgetFor 3)"
proof -
  have a: "(3::nat) < NumberOfArguments ex_widgetFor"
    "ArgumentType ex_widgetFor 3 = ''NSObject<Flange> *''"
    "looksLikeObject (ArgumentType ex_widgetFor 3)"
    "ArgumentType ex_widgetFor 3 \<notin> set [''Gadget'', ''Widget'']"
    "arg_loop (class_arg_step [''Gadget'', ''Widget'']) ex_widgetFor 0 Imports_zero =
       Imports_zero\<lparr>Classes := [''NSObject<Flange> *'']\<rparr>"
    "Trim (ArgumentType ex_widgetFor 3) ''NSObject<>'' \<notin> set [''Flange'']"
    by code_simp+
  have b: "(3::nat) = 0 \<or> (3::nat) \<le> 3" by simp
  note t = class_method_walk_has_no_protocol_branch
    [of "[''Gadget'', ''Widget'']" ex_widgetFor Imports_zero]
  from t have "instance_arg_step [''Gadget'', ''Widget''] [''Flange''] Imports_zero
         (ArgumentType ex_widgetFor 3) =
       (if looksLikeObject (ArgumentType ex_widgetFor 3)
            \<and> ArgumentType ex_widgetFor 3 \<notin> set [''Gadget'', ''Widget'']
            \<and> Trim (ArgumentType ex_widgetFor 3) ''NSObject<>'' \<in> set [''Flange'']
        then Imports_zero\<lparr>Locals := Locals Imports_zero @
               [Trim (ArgumentType ex_widgetFor 3) ''NSObject<>'' @ ''-Protocol.h'']\<rparr>
        else class_arg_step [''Gadget'', ''Widget''] Imports_zero (ArgumentType ex_widgetFor 3))"
    by blast
  with a(6) have c: "instance_arg_step [''Gadget'', ''Widget''] [''Flange''] Imports_zero
         (ArgumentType ex_widgetFor 3) =
       class_arg_step [''Gadget'', ''Widget''] Imports_zero (ArgumentType ex_widgetFor 3)"
    by simp
  from t a b c show ?thesis by blast
qed

text \<open>
  The claim as written fails: the class \<open>Widget\<close> below has one class method, whose first
  explicit argument has the type \<open>id<Flange>\<close>, and \<open>Flange\<close> is a protocol of the binary. The
  type does not pass the object-pointer test, so it is added neither to Classes nor to
  Locals.
\<close>

theorem class_method_protocol_argument_not_declared:
  "map class_Name [ex_observer_class] = [''Widget'']
   \<and> (3::nat) < NumberOfArguments ex_observe
   \<and> ArgumentType ex_observe 3 = ''id<Flange>''
   \<and> \<not> looksLikeObject (ArgumentType ex_observe 3)
   \<and> class_imports Map.empty [''Widget''] [''Flange''] ex_observer_class =
       \<lparr>Imports = [''Foundation''], Locals = [], Classes = [], Protos = []\<rparr>"
  by code_simp

section \<open>The header loops and the file system\<close>

lemma writeHeader_cases:
  "writeHeader E h log = (res, log') \<Longrightarrow>
     (res = Inr () \<and> log' = log @ [(h_FileName h, render_header h)]) \<or> (isl res \<and> log' = log)"
  by (auto simp: writeHeader_def Let_def split: io_outcome.splits)

lemma class_loop_log:
  "class_loop E conf bvs sv imps cs hs log = (res, log') \<Longrightarrow>
   \<exists>n\<le>length cs.
     log' = log @ map (\<lambda>c. (h_FileName (class_headerInfo E conf bvs sv imps (strip_accessors c)),
                            render_header (class_headerInfo E conf bvs sv imps (strip_accessors c))))
                   (take n cs)
     \<and> (\<forall>hs'. res = Inr hs' \<longrightarrow> n = length cs \<and>
            hs' = hs @ map (\<lambda>c. filepath_Base (h_FileName
                     (class_headerInfo E conf bvs sv imps (strip_accessors c)))) cs)"
proof (induction cs arbitrary: hs log)
  case Nil
  then show ?case by auto
next
  case (Cons c cs)
  let ?H = "class_headerInfo E conf bvs sv imps (strip_accessors c)"
  obtain r1 log1 where w: "writeHeader E ?H log = (r1, log1)" by (cases "writeHeader E ?H log")
  from writeHeader_cases[OF w] show ?case
  proof
    assume ok: "r1 = Inr () \<and> log1 = log @ [(h_FileName ?H, render_header ?H)]"
    with Cons.prems w have
      "class_loop E conf bvs sv imps cs (hs @ [filepath_Base (h_FileName ?H)]) log1 = (res, log')"
      by (simp add: Let_def)
    from Cons.IH[OF this] obtain n where n: "n \<le> length cs"
      "log' = log1 @ map (\<lambda>c. (h_FileName (class_headerInfo E conf bvs sv imps (strip_accessors c)),
                            render_header (class_headerInfo E conf bvs sv imps (strip_accessors c))))
                   (take n cs)"
      "\<forall>hs'. res = Inr hs' \<longrightarrow> n = length cs \<and>
            hs' = (hs @ [filepath_Base (h_FileName ?H)]) @ map (\<lambda>c. filepath_Base (h_FileName
                     (class_headerInfo E conf bvs sv imps (strip_accessors c)))) cs"
      by blast
    show ?thesis
      by (rule exI[of _ "Suc n"]) (use n ok in simp)
  next
    assume bad: "isl r1 \<and> log1 = log"
    with Cons.prems w have "isl res" "log' = log"
      by (auto simp: Let_def isl_def)
    then show ?thesis
      by (intro exI[of _ 0]) (auto simp: isl_def)
  qed
qed

lemma proto_loop_log:
  "proto_loop E foundation conf bvs sv imps ps seen hs log = (res, log') \<Longrightarrow>
   \<exists>emitted.
     log' = log @ map (\<lambda>p. (h_FileName (proto_headerInfo E conf bvs sv imps p),
                            render_header (proto_headerInfo E conf bvs sv imps p))) emitted
     \<and> distinct (map proto_Ptr emitted)
     \<and> (\<forall>p\<in>set emitted. proto_Ptr p \<notin> seen \<and> p \<in> set ps
           \<and> \<not> snd (BinarySearch (fnd foundation ''protocols'') (proto_Name p)))
     \<and> (\<forall>hs'. res = Inr hs' \<longrightarrow>
            hs' = hs @ map (\<lambda>p. filepath_Base (h_FileName (proto_headerInfo E conf bvs sv imps p)))
                         emitted)"
proof (induction ps arbitrary: seen hs log)
  case Nil
  then show ?case by (intro exI[of _ "[]"]) auto
next
  case (Cons p ps)
  let ?H = "proto_headerInfo E conf bvs sv imps p"
  let ?W = "\<lambda>p. (h_FileName (proto_headerInfo E conf bvs sv imps p),
                            render_header (proto_headerInfo E conf bvs sv imps p))"
  let ?B = "\<lambda>p. filepath_Base (h_FileName (proto_headerInfo E conf bvs sv imps p))"
  consider (skip) "snd (BinarySearch (fnd foundation ''protocols'') (proto_Name p)) \<or> proto_Ptr p \<in> seen"
    | (emit) "\<not> snd (BinarySearch (fnd foundation ''protocols'') (proto_Name p))" "proto_Ptr p \<notin> seen"
    by blast
  then show ?case
  proof cases
    case skip
    with Cons.prems have "proto_loop E foundation conf bvs sv imps ps seen hs log = (res, log')"
      by (auto split: if_splits)
    from Cons.IH[OF this] obtain emitted where
      "log' = log @ map ?W emitted" "distinct (map proto_Ptr emitted)"
      "\<forall>p\<in>set emitted. proto_Ptr p \<notin> seen \<and> p \<in> set ps
           \<and> \<not> snd (BinarySearch (fnd foundation ''protocols'') (proto_Name p))"
      "\<forall>hs'. res = Inr hs' \<longrightarrow> hs' = hs @ map ?B emitted"
      by blast
    then show ?thesis by (intro exI[of _ emitted]) auto
  next
    case emit
    obtain r1 log1 where w: "writeHeader E ?H log = (r1, log1)" by (cases "writeHeader E ?H log")
    from writeHeader_cases[OF w] show ?thesis
    proof
      assume ok: "r1 = Inr () \<and> log1 = log @ [(h_FileName ?H, render_header ?H)]"
      with Cons.prems w emit have
        "proto_loop E foundation conf bvs sv imps ps (insert (proto_Ptr p) seen)
           (hs @ [?B p]) log1 = (res, log')"
        by (simp add: Let_def)
      from Cons.IH[OF this] obtain emitted where e:
        "log' = log1 @ map ?W emitted" "distinct (map proto_Ptr emitted)"
        "\<forall>q\<in>set emitted. proto_Ptr q \<notin> insert (proto_Ptr p) seen \<and> q \<in> set ps
           \<and> \<not> snd (BinarySearch (fnd foundation ''protocols'') (proto_Name q))"
        "\<forall>hs'. res = Inr hs' \<longrightarrow> hs' = (hs @ [?B p]) @ map ?B emitted"
        by blast
      show ?thesis
        by (rule exI[of _ "p # emitted"]) (use e ok emit in auto)
    next
      assume bad: "isl r1 \<and> log1 = log"
      with Cons.prems w emit have "isl res" "log' = log"
        by (auto simp: Let_def isl_def)
      then show ?thesis
        by (intro exI[of _ "[]"]) (auto simp: isl_def)
    qed
  qed
qed

lemma cat_loop_log:
  "cat_loop E conf bvs sv imps cs hs log = (res, log') \<Longrightarrow>
   \<exists>n\<le>length cs.
     log' = log @ map (\<lambda>c. (h_FileName (cat_headerInfo E conf bvs sv imps c),
                            render_header (cat_headerInfo E conf bvs sv imps c)))
                   (take n cs)
     \<and> (\<forall>hs'. res = Inr hs' \<longrightarrow> n = length cs \<and>
            hs' = hs @ map (\<lambda>c. filepath_Base (h_FileName
                     (cat_headerInfo E conf bvs sv imps c))) cs)"
proof (induction cs arbitrary: hs log)
  case Nil
  then show ?case by auto
next
  case (Cons c cs)
  let ?H = "cat_headerInfo E conf bvs sv imps c"
  obtain r1 log1 where w: "writeHeader E ?H log = (r1, log1)" by (cases "writeHeader E ?H log")
  from writeHeader_cases[OF w] show ?case
  proof
    assume ok: "r1 = Inr () \<and> log1 = log @ [(h_FileName ?H, render_header ?H)]"
    with Cons.prems w have
      "cat_loop E conf bvs sv imps cs (hs @ [filepath_Base (h_FileName ?H)]) log1 = (res, log')"
      by (simp add: Let_def)
    from Cons.IH[OF this] obtain n where n: "n \<le> length cs"
      "log' = log1 @ map (\<lambda>c. (h_FileName (cat_headerInfo E conf bvs sv imps c),
                            render_header (cat_headerInfo E conf bvs sv imps c)))
                   (take n cs)"
      "\<forall>hs'. res = Inr hs' \<longrightarrow> n = length cs \<and>
            hs' = (hs @ [filepath_Base (h_FileName ?H)]) @ map (\<lambda>c. filepath_Base (h_FileName
                     (cat_headerInfo E conf bvs sv imps c))) cs"
      by blast
    show ?thesis
      by (rule exI[of _ "Suc n"]) (use n ok in simp)
  next
    assume bad: "isl r1 \<and> log1 = log"
    with Cons.prems w have "isl res" "log' = log"
      by (auto simp: Let_def isl_def)
    then show ?thesis
      by (intro exI[of _ 0]) (auto simp: isl_def)
  qed
qed

lemma class_loop_ok:
  assumes "class_loop E conf bvs sv imps cs hs log = (Inr hs', log')"
  shows "\<exists>ws. log' = log @ ws \<and> hs' = hs @ map (\<lambda>w. filepath_Base (fst w)) ws"
proof -
  from class_loop_log[OF assms] obtain n where
    "log' = log @ map (\<lambda>c. (h_FileName (class_headerInfo E conf bvs sv imps (strip_accessors c)),
                            render_header (class_headerInfo E conf bvs sv imps (strip_accessors c))))
                   (take n cs)"
    "n = length cs"
    "hs' = hs @ map (\<lambda>c. filepath_Base (h_FileName
                     (class_headerInfo E conf bvs sv imps (strip_accessors c)))) cs"
    by blast
  then show ?thesis
    by (intro exI[of _ "map (\<lambda>c. (h_FileName (class_headerInfo E conf bvs sv imps (strip_accessors c)),
                            render_header (class_headerInfo E conf bvs sv imps (strip_accessors c)))) cs"])
       (simp add: comp_def)
qed

lemma proto_loop_ok:
  assumes "proto_loop E foundation conf bvs sv imps ps seen hs log = (Inr hs', log')"
  shows "\<exists>ws. log' = log @ ws \<and> hs' = hs @ map (\<lambda>w. filepath_Base (fst w)) ws"
proof -
  from proto_loop_log[OF assms] obtain emitted where
    "log' = log @ map (\<lambda>p. (h_FileName (proto_headerInfo E conf bvs sv imps p),
                            render_header (proto_headerInfo E conf bvs sv imps p))) emitted"
    "hs' = hs @ map (\<lambda>p. filepath_Base (h_FileName (proto_headerInfo E conf bvs sv imps p)))
                         emitted"
    by blast
  then show ?thesis
    by (intro exI[of _ "map (\<lambda>p. (h_FileName (proto_headerInfo E conf bvs sv imps p),
                            render_header (proto_headerInfo E conf bvs sv imps p))) emitted"])
       (simp add: comp_def)
qed

lemma cat_loop_ok:
  assumes "cat_loop E conf bvs sv imps cs hs log = (Inr hs', log')"
  shows "\<exists>ws. log' = log @ ws \<and> hs' = hs @ map (\<lambda>w. filepath_Base (fst w)) ws"
proof -
  from cat_loop_log[OF assms] obtain n where
    "log' = log @ map (\<lambda>c. (h_FileName (cat_headerInfo E conf bvs sv imps c),
                            render_header (cat_headerInfo E conf bvs sv imps c)))
                   (take n cs)"
    "n = length cs"
    "hs' = hs @ map (\<lambda>c. filepath_Base (h_FileName (cat_headerInfo E conf bvs sv imps c))) cs"
    by blast
  then show ?thesis
    by (intro exI[of _ "map (\<lambda>c. (h_FileName (cat_headerInfo E conf bvs sv imps c),
                            render_header (cat_headerInfo E conf bvs sv imps c))) cs"])
       (simp add: comp_def)
qed

lemma entity_headers_ok:
  assumes "entity_headers E foundation conf bvs sv m log = (Inr hs, log')"
  shows "\<exists>ws. log' = log @ ws \<and> hs = map (\<lambda>w. filepath_Base (fst w)) ws"
proof -
  from assms obtain imps classes h1 log1 protos h2 log2 cats where
    c: "class_loop E conf bvs sv imps (sort_key class_Name classes) [] log = (Inr h1, log1)"
    and p: "proto_loop E foundation conf bvs sv imps (sort_key proto_Name protos) {} h1 log1 = (Inr h2, log2)"
    and k: "cat_loop E conf bvs sv imps (sort_key cat_Name cats) h2 log2 = (Inr hs, log')"
    by (auto simp: entity_headers_def split: sum.splits prod.splits)
  from class_loop_ok[OF c] proto_loop_ok[OF p] cat_loop_ok[OF k]
  obtain w1 w2 w3 where
    "log1 = log @ w1" "h1 = [] @ map (\<lambda>w. filepath_Base (fst w)) w1"
    "log2 = log1 @ w2" "h2 = h1 @ map (\<lambda>w. filepath_Base (fst w)) w2"
    "log' = log2 @ w3" "hs = h2 @ map (\<lambda>w. filepath_Base (fst w)) w3"
    by blast
  then show ?thesis by (intro exI[of _ "w1 @ w2 @ w3"]) simp
qed

section \<open>Protocol headers\<close>

text \<open>
  C4. For every protocol descriptor list of a binary, the protocol headers that header
  generation writes are the headers of a list of descriptors of that binary with pairwise
  distinct identity values (\<open>Ptr\<close>), so at most one header is written per identity, even if
  the list holds several descriptors with equal identity; and no protocol whose name is in the
  Foundation protocol set has a header written.
\<close>

theorem protocol_headers_once_per_identity:
  assumes "scanFoundation obj = (Inr (), obj1)"
    and "proto_loop E (o_foundation obj1) conf bvs sv imps protos {} headers log = (res, log')"
  shows "\<exists>emitted.
     log' = log @ map (\<lambda>p. (h_FileName (proto_headerInfo E conf bvs sv imps p),
                            render_header (proto_headerInfo E conf bvs sv imps p))) emitted
     \<and> distinct (map proto_Ptr emitted)
     \<and> (\<forall>p\<in>set emitted. p \<in> set protos
           \<and> proto_Name p \<notin> set (fnd (o_foundation obj1) ''protocols''))
     \<and> (\<forall>hs'. res = Inr hs' \<longrightarrow>
            hs' = headers @
              map (\<lambda>p. filepath_Base (h_FileName (proto_headerInfo E conf bvs sv imps p))) emitted)"
proof -
  from scanFoundation_sorted[OF assms(1)]
  have srt: "sorted (fnd (o_foundation obj1) ''protocols'')" by simp
  from proto_loop_log[OF assms(2)] obtain emitted where e:
    "log' = log @ map (\<lambda>p. (h_FileName (proto_headerInfo E conf bvs sv imps p),
                            render_header (proto_headerInfo E conf bvs sv imps p))) emitted"
    "distinct (map proto_Ptr emitted)"
    "\<forall>p\<in>set emitted. proto_Ptr p \<notin> {} \<and> p \<in> set protos
           \<and> \<not> snd (BinarySearch (fnd (o_foundation obj1) ''protocols'') (proto_Name p))"
    "\<forall>hs'. res = Inr hs' \<longrightarrow>
            hs' = headers @
              map (\<lambda>p. filepath_Base (h_FileName (proto_headerInfo E conf bvs sv imps p))) emitted"
    by blast
  from e(3) have "\<forall>p\<in>set emitted. p \<in> set protos
           \<and> proto_Name p \<notin> set (fnd (o_foundation obj1) ''protocols'')"
    by (simp add: BinarySearch_found_iff[OF srt])
  with e show ?thesis by blast
qed

theorem protocol_headers_once_per_identity_witness:
  "scanFoundation ex_obj = (Inr (), snd (scanFoundation ex_obj))
   \<and> proto_loop ex_env ex_index ex_conf [] [] Map.empty (sort_key proto_Name ex_protos) {} [] [] =
       (Inr [''Copying-Protocol.h'', ''WidgetDelegate-Protocol.h''], snd ex_proto_run)
   \<and> map proto_Name (sort_key proto_Name ex_protos) =
       [''Copying'', ''Copying'', ''NSCopying'', ''WidgetDelegate'']
   \<and> map fst (snd ex_proto_run) =
       [''out/a.out/Copying-Protocol.h'', ''out/a.out/WidgetDelegate-Protocol.h'']
   \<and> (\<exists>emitted.
         snd ex_proto_run = [] @
           map (\<lambda>p. (h_FileName (proto_headerInfo ex_env ex_conf [] [] Map.empty p),
                     render_header (proto_headerInfo ex_env ex_conf [] [] Map.empty p))) emitted
         \<and> distinct (map proto_Ptr emitted)
         \<and> (\<forall>p\<in>set emitted. p \<in> set (sort_key proto_Name ex_protos)
               \<and> proto_Name p \<notin> set (fnd ex_index ''protocols'')))"
proof -
  have "fst (scanFoundation ex_obj) = Inr ()" by code_simp
  then have a: "scanFoundation ex_obj = (Inr (), snd (scanFoundation ex_obj))"
    by (metis prod.collapse)
  have "fst ex_proto_run = Inr [''Copying-Protocol.h'', ''WidgetDelegate-Protocol.h'']"
    by code_simp
  then have b: "proto_loop ex_env ex_index ex_conf [] [] Map.empty
       (sort_key proto_Name ex_protos) {} [] [] =
       (Inr [''Copying-Protocol.h'', ''WidgetDelegate-Protocol.h''], snd ex_proto_run)"
    unfolding ex_proto_run_def by (metis prod.collapse)
  have c: "map proto_Name (sort_key proto_Name ex_protos) =
       [''Copying'', ''Copying'', ''NSCopying'', ''WidgetDelegate'']"
    by code_simp
  have d: "map fst (snd ex_proto_run) =
       [''out/a.out/Copying-Protocol.h'', ''out/a.out/WidgetDelegate-Protocol.h'']"
    by code_simp
  from protocol_headers_once_per_identity [OF a b[unfolded ex_index_def], folded ex_index_def]
    a b c d
  show ?thesis by blast
qed

section \<open>Class headers without synthesized accessors\<close>

lemma strip_accessors_props:
  assumes "prop \<in> set (class_Props c)"
  shows "(\<forall>i\<in>set (class_Ivars (strip_accessors c)). TrimPrefix (ivar_Name i) ''_'' \<noteq> prop_Name prop)
    \<and> (\<forall>m\<in>set (class_InstanceMethods (strip_accessors c)).
          meth_Name m \<noteq> prop_Name prop \<and> transformSetter (meth_Name m) \<noteq> prop_Name prop)"
  using assms by (auto simp: strip_accessors_def Let_def DeleteFunc_def Sort_def)

text \<open>
  C5. Every class header is rendered from the class with its accessors stripped: for every
  class that declares a property named \<open>foo\<close>, the printed class has no ivar whose name, after
  an optional leading underscore is stripped, equals \<open>foo\<close>, and no instance method whose
  selector equals \<open>foo\<close> or whose setter transform equals \<open>foo\<close>.
\<close>

theorem accessors_stripped_from_class_headers:
  assumes "class_loop E conf bvs sv imps classes headers log = (res, log')"
  shows "(\<exists>n\<le>length classes.
        log' = log @
          map (\<lambda>c. (h_FileName (class_headerInfo E conf bvs sv imps (strip_accessors c)),
                    render_header (class_headerInfo E conf bvs sv imps (strip_accessors c))))
              (take n classes))
    \<and> (\<forall>c\<in>set classes.
          h_Object (class_headerInfo E conf bvs sv imps (strip_accessors c)) =
            DemangleBlob E (class_Verbose E (strip_accessors c))
        \<and> (\<forall>prop\<in>set (class_Props c).
              (\<forall>i\<in>set (class_Ivars (strip_accessors c)).
                  TrimPrefix (ivar_Name i) ''_'' \<noteq> prop_Name prop)
            \<and> (\<forall>m\<in>set (class_InstanceMethods (strip_accessors c)).
                  meth_Name m \<noteq> prop_Name prop
                  \<and> transformSetter (meth_Name m) \<noteq> prop_Name prop)))"
proof -
  from class_loop_log[OF assms]
  have A: "\<exists>n\<le>length classes.
        log' = log @
          map (\<lambda>c. (h_FileName (class_headerInfo E conf bvs sv imps (strip_accessors c)),
                    render_header (class_headerInfo E conf bvs sv imps (strip_accessors c))))
              (take n classes)"
    by blast
  have B: "h_Object (class_headerInfo E conf bvs sv imps (strip_accessors c)) =
            DemangleBlob E (class_Verbose E (strip_accessors c))" for c
    by (simp add: class_headerInfo_def)
  show ?thesis
    using A B strip_accessors_props by (intro conjI ballI) blast+
qed

theorem accessors_stripped_from_class_headers_witness:
  "class_loop ex_env ex_conf [] [] Map.empty [ex_Widget] [] [] =
       (Inr [''Widget.h''], snd ex_class_run)
   \<and> map prop_Name (class_Props ex_Widget) = [''gadget'', ''title'']
   \<and> map ivar_Name (class_Ivars ex_Widget) =
       [''_gadget'', ''_title'', ''_target'', ''_delegate'', ''_count'']
   \<and> map ivar_Name (class_Ivars (strip_accessors ex_Widget)) =
       [''_target'', ''_delegate'', ''_count'']
   \<and> map meth_Name (class_InstanceMethods ex_Widget) = [''gadget'', ''setGadget:'', ''attach:to:'']
   \<and> map meth_Name (class_InstanceMethods (strip_accessors ex_Widget)) = [''attach:to:'']
   \<and> transformSetter ''setGadget:'' = ''gadget''
   \<and> (\<exists>n\<le>length [ex_Widget].
         snd ex_class_run = [] @
           map (\<lambda>c. (h_FileName (class_headerInfo ex_env ex_conf [] [] Map.empty (strip_accessors c)),
                     render_header (class_headerInfo ex_env ex_conf [] [] Map.empty (strip_accessors c))))
             (take n [ex_Widget]))
   \<and> h_Object (class_headerInfo ex_env ex_conf [] [] Map.empty (strip_accessors ex_Widget)) =
       DemangleBlob ex_env (class_Verbose ex_env (strip_accessors ex_Widget))
   \<and> TrimPrefix (ivar_Name (hd (class_Ivars (strip_accessors ex_Widget)))) ''_''
        \<noteq> prop_Name (hd (class_Props ex_Widget))
   \<and> meth_Name (hd (class_InstanceMethods (strip_accessors ex_Widget)))
        \<noteq> prop_Name (hd (class_Props ex_Widget))
   \<and> transformSetter (meth_Name (hd (class_InstanceMethods (strip_accessors ex_Widget))))
        \<noteq> prop_Name (hd (class_Props ex_Widget))"
proof -
  have "fst ex_class_run = Inr [''Widget.h'']" by code_simp
  then have a: "class_loop ex_env ex_conf [] [] Map.empty [ex_Widget] [] [] =
       (Inr [''Widget.h''], snd ex_class_run)"
    unfolding ex_class_run_def by (metis prod.collapse)
  have b: "map prop_Name (class_Props ex_Widget) = [''gadget'', ''title'']"
    "map ivar_Name (class_Ivars ex_Widget) =
       [''_gadget'', ''_title'', ''_target'', ''_delegate'', ''_count'']"
    "map ivar_Name (class_Ivars (strip_accessors ex_Widget)) =
       [''_target'', ''_delegate'', ''_count'']"
    "map meth_Name (class_InstanceMethods ex_Widget) = [''gadget'', ''setGadget:'', ''attach:to:'']"
    "map meth_Name (class_InstanceMethods (strip_accessors ex_Widget)) = [''attach:to:'']"
    "transformSetter ''setGadget:'' = ''gadget''"
    by code_simp+
  have c: "ex_Widget \<in> set [ex_Widget]" by simp
  have d: "hd (class_Props ex_Widget) \<in> set (class_Props ex_Widget)"
    using b(1) by (intro hd_in_set) auto
  have e: "hd (class_Ivars (strip_accessors ex_Widget)) \<in> set (class_Ivars (strip_accessors ex_Widget))"
    using b(3) by (intro hd_in_set) auto
  have f: "hd (class_InstanceMethods (strip_accessors ex_Widget))
      \<in> set (class_InstanceMethods (strip_accessors ex_Widget))"
    using b(5) by (intro hd_in_set) auto
  from accessors_stripped_from_class_headers [OF a] a b c d e f
  show ?thesis by blast
qed

section \<open>The name of the umbrella header\<close>

text \<open>
  C6 (amended). For every processed binary whose run succeeds and writes at least one file, the
  writes are the entity headers followed by the umbrella header, and the umbrella header is
  named \<open><Module>-Umbrella.h\<close> exactly when one of the entity headers written for that binary
  (of a class, a protocol or a category) has the file name \<open><Module>.h\<close>, and \<open><Module>.h\<close>
  otherwise.
\<close>

theorem umbrella_name_by_emitted_headers:
  assumes "writeHeaders E foundation conf0 m log = (Inr (), conf, log')"
    and "log' \<noteq> log"
  shows "\<exists>entity umbrella.
      log' = log @ entity @ [umbrella] \<and> entity \<noteq> [] \<and>
      fst umbrella = filepath_Join [conf_Output conf, conf_Name conf,
         (if conf_Name conf @ ''.h'' \<in> set (map (\<lambda>w. filepath_Base (fst w)) entity)
          then conf_Name conf @ ''-Umbrella'' else conf_Name conf) @ ''.h'']"
proof -
  define bvs where "bvs = LC_BUILD_VERSION m"
  define sv where "sv = (case LC_SOURCE_VERSION m of [] \<Rightarrow> [] | sv # svs \<Rightarrow> sv)"
  have objc: "HasObjC m"
  proof (rule ccontr)
    assume "\<not> HasObjC m"
    with assms show False by (simp add: writeHeaders_def)
  qed
  define c1 where "c1 = (case DylibID m of
                       Some idName \<Rightarrow> conf0\<lparr>conf_Name := filepath_Base idName\<rparr>
                     | None \<Rightarrow> conf0)"
  obtain r1 log1 where e: "entity_headers E foundation c1 bvs sv m log = (r1, log1)"
    by (cases "entity_headers E foundation c1 bvs sv m log")
  from assms(1) objc e have conf: "conf = c1"
    by (auto simp: writeHeaders_def Let_def c1_def bvs_def sv_def split: sum.splits prod.splits if_splits)
  from assms(1) objc e obtain hs where r1: "r1 = Inr hs"
    by (cases r1) (auto simp: writeHeaders_def Let_def c1_def bvs_def sv_def split: prod.splits if_splits)
  from entity_headers_ok[OF e[unfolded r1]] obtain ws where
    ws: "log1 = log @ ws" "hs = map (\<lambda>w. filepath_Base (fst w)) ws" by blast
  have ne: "hs \<noteq> []"
  proof
    assume "hs = []"
    with assms(1) objc e r1 ws have "log' = log"
      by (auto simp: writeHeaders_def Let_def c1_def bvs_def sv_def)
    with assms(2) show False by simp
  qed
  with assms(1) objc e r1 have
    w: "writeHeader E (umbrella_headerInfo c1 bvs sv hs) log1 = (Inr (), log')"
    by (auto simp: writeHeaders_def Let_def c1_def bvs_def sv_def split: sum.splits prod.splits)
  from writeHeader_cases[OF w] have
    "log' = log1 @ [(h_FileName (umbrella_headerInfo c1 bvs sv hs),
                     render_header (umbrella_headerInfo c1 bvs sv hs))]"
    by simp
  with ws ne conf show ?thesis
    by (intro exI[of _ ws] exI[of _ "(h_FileName (umbrella_headerInfo c1 bvs sv hs),
                     render_header (umbrella_headerInfo c1 bvs sv hs))"])
       (auto simp: umbrella_headerInfo_def umbrella_name_def Let_def)
qed

theorem umbrella_name_by_emitted_headers_witness:
  "writeHeaders ex_env ex_index ex_conf ex_binary [] = (Inr (), fst (snd ex_run), snd (snd ex_run))
   \<and> snd (snd ex_run) \<noteq> []
   \<and> conf_Name (fst (snd ex_run)) = ''Mod''
   \<and> map fst (snd (snd ex_run)) =
       [''out/Mod/Gadget.h'', ''out/Mod/Widget.h'', ''out/Mod/Copying-Protocol.h'',
        ''out/Mod/WidgetDelegate-Protocol.h'', ''out/Mod/NSString+Additions.h'',
        ''out/Mod/Private.h'', ''out/Mod/Mod.h'']
   \<and> (\<exists>entity umbrella.
        snd (snd ex_run) = [] @ entity @ [umbrella]
        \<and> entity \<noteq> []
        \<and> fst umbrella =
            filepath_Join
              [conf_Output (fst (snd ex_run)), conf_Name (fst (snd ex_run)),
               (if conf_Name (fst (snd ex_run)) @ ''.h''
                     \<in> set (map (\<lambda>w. filepath_Base (fst w)) entity)
                then conf_Name (fst (snd ex_run)) @ ''-Umbrella''
                else conf_Name (fst (snd ex_run))) @ ''.h''])"
proof -
  have "fst ex_run = Inr ()" by code_simp
  then have a: "writeHeaders ex_env ex_index ex_conf ex_binary [] =
      (Inr (), fst (snd ex_run), snd (snd ex_run))"
    unfolding ex_run_def by (metis prod.collapse)
  have b: "snd (snd ex_run) \<noteq> []" by code_simp
  have c: "conf_Name (fst (snd ex_run)) = ''Mod''" by code_simp
  have d: "map fst (snd (snd ex_run)) =
       [''out/Mod/Gadget.h'', ''out/Mod/Widget.h'', ''out/Mod/Copying-Protocol.h'',
        ''out/Mod/WidgetDelegate-Protocol.h'', ''out/Mod/NSString+Additions.h'',
        ''out/Mod/Private.h'', ''out/Mod/Mod.h'']"
    by code_simp
  from umbrella_name_by_emitted_headers [OF a b] a b c d show ?thesis by blast
qed

text \<open>
  The claim as written fails: the binary below has no class, so no class header is written,
  and its category \<open>Mod\<close> is written to \<open>Mod.h\<close>; the umbrella header is named
  \<open>Mod-Umbrella.h\<close>.
\<close>

theorem umbrella_renamed_without_class_header:
  "GetObjCClasses ex_category_only = Inr []
   \<and> map fst (snd (snd (writeHeaders ex_env Map.empty ex_conf ex_category_only []))) =
       [''out/Mod/Mod.h'', ''out/Mod/Mod-Umbrella.h'']"
proof -
  have "GetObjCClasses ex_category_only = Inr []"
    by (simp add: ex_category_only_def)
  moreover have
    "map fst (snd (snd (writeHeaders ex_env Map.empty ex_conf ex_category_only []))) =
       [''out/Mod/Mod.h'', ''out/Mod/Mod-Umbrella.h'']"
    by code_simp
  ultimately show ?thesis by blast
qed

section \<open>The include guard\<close>

lemma Split_line: "c \<notin> set l \<Longrightarrow> Split (l @ c # rest) c = l # Split rest c"
  by (induction l) (auto split: list.splits)

lemma skip_comment_lines:
  assumes "\<forall>l\<in>set ls. CHR 0x0A \<notin> set l \<and> \<not> HasPrefix l ''#ifndef ''"
  shows "dropWhile (\<lambda>l. \<not> HasPrefix l ''#ifndef '')
           (Split (concat (map (\<lambda>l. l @ [CHR 0x0A]) ls) @ rest) (CHR 0x0A)) =
         dropWhile (\<lambda>l. \<not> HasPrefix l ''#ifndef '') (Split rest (CHR 0x0A))"
  using assms
proof (induction ls)
  case Nil
  then show ?case by simp
next
  case (Cons l ls)
  then have "CHR 0x0A \<notin> set l" "\<not> HasPrefix l ''#ifndef ''" by simp_all
  then have "Split (concat (map (\<lambda>l. l @ [CHR 0x0A]) (l # ls)) @ rest) (CHR 0x0A) =
      l # Split (concat (map (\<lambda>l. l @ [CHR 0x0A]) ls) @ rest) (CHR 0x0A)"
    using Split_line[of "CHR 0x0A" l "concat (map (\<lambda>l. l @ [CHR 0x0A]) ls) @ rest"] by simp
  with Cons \<open>\<not> HasPrefix l ''#ifndef ''\<close> show ?case by simp
qed

lemma build_version_lines:
  "pre @ Join bvs (CHR 0x0A # pre) @ [CHR 0x0A] =
     concat (map (\<lambda>l. l @ [CHR 0x0A]) (if bvs = [] then [pre] else map (\<lambda>b. pre @ b) bvs))"
  by (induction bvs pre rule: Join.induct) simp_all

lemma guard_lines:
  assumes "CHR 0x0A \<notin> set name"
  shows "dropWhile (\<lambda>l. \<not> HasPrefix l ''#ifndef '')
           (Split (''#ifndef '' @ name @ ''_h'' @ [CHR 0x0A] @
                   ''#define '' @ name @ ''_h'' @ [CHR 0x0A] @ rest) (CHR 0x0A)) =
         (''#ifndef '' @ name @ ''_h'') # (''#define '' @ name @ ''_h'') # Split rest (CHR 0x0A)"
proof -
  have a: "CHR 0x0A \<notin> set (''#ifndef '' @ name @ ''_h'')"
    "CHR 0x0A \<notin> set (''#define '' @ name @ ''_h'')"
    using assms by simp_all
  have "Split ((''#ifndef '' @ name @ ''_h'') @ CHR 0x0A #
                 (''#define '' @ name @ ''_h'') @ CHR 0x0A # rest) (CHR 0x0A) =
        (''#ifndef '' @ name @ ''_h'') # (''#define '' @ name @ ''_h'') # Split rest (CHR 0x0A)"
    by (simp only: Split_line[OF a(1)] Split_line[OF a(2)])
  moreover have "HasPrefix (''#ifndef '' @ name @ ''_h'') ''#ifndef ''"
    by (simp add: HasPrefix_def)
  ultimately show ?thesis by simp
qed

lemma parse_guard_after_comments:
  assumes "\<forall>l\<in>set ls. CHR 0x0A \<notin> set l \<and> \<not> HasPrefix l ''#ifndef ''"
    and "CHR 0x0A \<notin> set name"
  shows "parse_guard (concat (map (\<lambda>l. l @ [CHR 0x0A]) ls) @
            ''#ifndef '' @ name @ ''_h'' @ [CHR 0x0A] @
            ''#define '' @ name @ ''_h'' @ [CHR 0x0A] @ rest) = Some (name @ ''_h'')"
  unfolding parse_guard_def skip_comment_lines[OF assms(1)] guard_lines[OF assms(2)]
  by simp

text \<open>
  C7 (amended). For every generated header file whose version strings and name hold no
  newline, reading the include guard back from the \<open>#ifndef\<close> and \<open>#define\<close> lines yields the
  \<open>Name\<close> of its \<open>headerInfo\<close> followed by \<open>_h\<close>; that name is the entity name unchanged for a
  class, protocol or category header (a \<open>-\<close> in it is kept), and the umbrella name with every
  \<open>-\<close> replaced by \<open>_\<close> for the umbrella header.
\<close>

theorem include_guard_round_trip:
  assumes "CHR 0x0A \<notin> set (h_IpswVersion hinfo)"
    and "\<forall>b\<in>set (h_BuildVersions hinfo). CHR 0x0A \<notin> set b"
    and "CHR 0x0A \<notin> set (h_SourceVersion hinfo)"
    and "CHR 0x0A \<notin> set (h_Name hinfo)"
  shows "parse_guard (render_header hinfo) = Some (h_Name hinfo @ ''_h'')
    \<and> h_Name (class_headerInfo E conf bvs sv imps class) = class_Name class
    \<and> h_Name (proto_headerInfo E conf bvs sv imps proto) = proto_Name proto
    \<and> h_Name (cat_headerInfo E conf bvs sv imps cat) = cat_Name cat
    \<and> h_Name (umbrella_headerInfo conf bvs sv headers) =
        ReplaceAll (umbrella_name conf headers) (CHR ''-'') (CHR ''_'')"
proof -
  define ls where "ls =
    [''//'',
     ''//   Generated by https://github.com/blacktop/ipsw ('' @ h_IpswVersion hinfo @ '')'',
     ''//''] @
    (if h_BuildVersions hinfo = [] then [''//    - LC_BUILD_VERSION:  '']
     else map (\<lambda>b. ''//    - LC_BUILD_VERSION:  '' @ b) (h_BuildVersions hinfo)) @
    [''//    - LC_SOURCE_VERSION: '' @ h_SourceVersion hinfo, ''//'']"
  define rest where "rest =
     (if \<not> h_IsUmbrella hinfo then ''@import Foundation;'' @ [CHR 0x0A] else []) @
     [CHR 0x0A] @
     (if Locals (h_Imports hinfo) \<noteq> [] then
        concat (map (\<lambda>local. ''#include '' @ [CHR 0x22] @ local @ [CHR 0x22, CHR 0x0A])
                  (Locals (h_Imports hinfo))) @ [CHR 0x0A]
      else []) @
     (if Classes (h_Imports hinfo) \<noteq> [] then
        ''@class '' @ Join (Classes (h_Imports hinfo)) '', '' @ '';'' @ [CHR 0x0A]
      else []) @
     (if Protos (h_Imports hinfo) \<noteq> [] then
        ''@protocol '' @ Join (Protos (h_Imports hinfo)) '', '' @ '';'' @ [CHR 0x0A]
      else []) @
     (if Classes (h_Imports hinfo) \<noteq> [] \<or> Protos (h_Imports hinfo) \<noteq> [] then [CHR 0x0A]
      else []) @
     h_Object hinfo @ [CHR 0x0A] @
     ''#endif /* '' @ h_Name hinfo @ ''_h */'' @ [CHR 0x0A]"
  have shape: "render_header hinfo =
      concat (map (\<lambda>l. l @ [CHR 0x0A]) ls) @
        ''#ifndef '' @ h_Name hinfo @ ''_h'' @ [CHR 0x0A] @
        ''#define '' @ h_Name hinfo @ ''_h'' @ [CHR 0x0A] @ rest"
    unfolding render_header_def ls_def rest_def
    by (simp only: map_append concat_append list.map concat.simps append_assoc append_Nil2
        build_version_lines[symmetric])
  have lines: "\<forall>l\<in>set ls. CHR 0x0A \<notin> set l \<and> \<not> HasPrefix l ''#ifndef ''"
    using assms(1-3) by (auto simp: ls_def HasPrefix_def)
  from parse_guard_after_comments[OF lines assms(4), of rest] shape
  have "parse_guard (render_header hinfo) = Some (h_Name hinfo @ ''_h'')" by simp
  then show ?thesis
    by (simp add: class_headerInfo_def proto_headerInfo_def cat_headerInfo_def
        umbrella_headerInfo_def Let_def)
qed

theorem include_guard_round_trip_witness:
  "CHR 0x0A \<notin> set (h_IpswVersion ex_umbrella)
   \<and> h_BuildVersions ex_umbrella = [''macOS 14.0'', ''iOS 17.0'']
   \<and> CHR 0x0A \<notin> set ''macOS 14.0'' \<and> CHR 0x0A \<notin> set ''iOS 17.0''
   \<and> CHR 0x0A \<notin> set (h_SourceVersion ex_umbrella)
   \<and> CHR 0x0A \<notin> set (h_Name ex_umbrella)
   \<and> umbrella_name (ex_conf\<lparr>conf_Name := ''Mod''\<rparr>) [''Mod.h'', ''Widget.h''] = ''Mod-Umbrella''
   \<and> h_Name ex_umbrella = ''Mod_Umbrella''
   \<and> parse_guard (render_header ex_umbrella) = Some ''Mod_Umbrella_h''
   \<and> parse_guard (render_header ex_umbrella) = Some (h_Name ex_umbrella @ ''_h'')
   \<and> h_Name (class_headerInfo ex_env ex_conf [] [] Map.empty ex_Widget) = class_Name ex_Widget"
proof -
  have a: "CHR 0x0A \<notin> set (h_IpswVersion ex_umbrella)"
    "h_BuildVersions ex_umbrella = [''macOS 14.0'', ''iOS 17.0'']"
    "CHR 0x0A \<notin> set ''macOS 14.0''" "CHR 0x0A \<notin> set ''iOS 17.0''"
    "CHR 0x0A \<notin> set (h_SourceVersion ex_umbrella)"
    "CHR 0x0A \<notin> set (h_Name ex_umbrella)"
    "umbrella_name (ex_conf\<lparr>conf_Name := ''Mod''\<rparr>) [''Mod.h'', ''Widget.h''] = ''Mod-Umbrella''"
    "h_Name ex_umbrella = ''Mod_Umbrella''"
    by code_simp+
  have b: "\<forall>b\<in>set (h_BuildVersions ex_umbrella). CHR 0x0A \<notin> set b"
    using a(2,3,4) by simp
  from include_guard_round_trip [OF a(1) b a(5) a(6), of ex_env ex_conf "[]" "[]" Map.empty
      ex_Widget] a
  show ?thesis by simp
qed

text \<open>
  The claim as written fails: the guard of the header of a class named \<open>Web-View\<close> is
  \<open>Web-View_h\<close>, not \<open>Web_View_h\<close>.
\<close>

theorem include_guard_keeps_hyphen:
  "parse_guard (render_header
      (class_headerInfo ex_env ex_conf [] [] Map.empty (ex_class ''Web-View''))) =
     Some ''Web-View_h''
   \<and> ReplaceAll (class_Name (ex_class ''Web-View'')) (CHR ''-'') (CHR ''_'') @ ''_h'' =
       ''Web_View_h''"
  by code_simp

section \<open>Determinism under permutation of the descriptor lists\<close>

lemma sorted_by_key_unique:
  assumes "mset xs = mset ys" "sorted (map f xs)" "sorted (map f ys)" "inj_on f (set xs)"
  shows "xs = ys"
  using assms
proof (induction xs arbitrary: ys)
  case Nil
  then show ?case by simp
next
  case (Cons x xs)
  from Cons.prems(1) obtain y ys' where ys: "ys = y # ys'" by (cases ys) auto
  from Cons.prems(1) have sets: "set (x # xs) = set ys" by (metis set_mset_mset)
  then have xin: "x \<in> set ys" and yin: "y \<in> set (x # xs)" using ys by auto
  from yin Cons.prems(2) have "f x \<le> f y" by auto
  moreover from xin Cons.prems(3) ys have "f y \<le> f x" by auto
  ultimately have "f x = f y" by simp
  with Cons.prems(4) yin have xy: "x = y" by (auto dest: inj_onD)
  with Cons.prems ys have "mset xs = mset ys'" "sorted (map f xs)" "sorted (map f ys')"
    "inj_on f (set xs)"
    by (auto simp: inj_on_def)
  from Cons.IH[OF this] xy ys show ?case by simp
qed

lemma sort_key_permutation:
  assumes "mset xs' = mset xs" "inj_on f (set xs)"
  shows "sort_key f xs' = sort_key f xs"
proof (rule sorted_by_key_unique[where f = f])
  show "mset (sort_key f xs') = mset (sort_key f xs)" using assms(1) by simp
  show "sorted (map f (sort_key f xs'))" "sorted (map f (sort_key f xs))" by simp_all
  from assms have "set xs' = set xs" by (metis set_mset_mset)
  with assms(2) show "inj_on f (set (sort_key f xs'))" by simp
qed

lemma processForwardDeclarations_lists:
  "processForwardDeclarations foundation
     (m\<lparr>GetObjCClasses := Inr cs, GetObjCProtocols := Inr ps, GetObjCCategories := Inr ks\<rparr>) =
   Inr (foldl (\<lambda>imps class.
                 imps(class_Name class \<mapsto>
                   class_imports foundation (map class_Name (sort_key class_Name cs))
                     (map proto_Name (sort_key proto_Name ps)) class))
          Map.empty (sort_key class_Name cs))"
  by (simp add: processForwardDeclarations_def unless_absent_def Let_def)

lemma entity_headers_lists:
  "entity_headers E foundation conf bvs sv
     (m\<lparr>GetObjCClasses := Inr cs, GetObjCProtocols := Inr ps, GetObjCCategories := Inr ks\<rparr>) log =
   (case class_loop E conf bvs sv
           (foldl (\<lambda>imps class.
                 imps(class_Name class \<mapsto>
                   class_imports foundation (map class_Name (sort_key class_Name cs))
                     (map proto_Name (sort_key proto_Name ps)) class))
              Map.empty (sort_key class_Name cs))
           (sort_key class_Name cs) [] log of
      (Inl err, log1) \<Rightarrow> (Inl err, log1)
    | (Inr headers1, log1) \<Rightarrow>
        (case proto_loop E foundation conf bvs sv
                (foldl (\<lambda>imps class.
                 imps(class_Name class \<mapsto>
                   class_imports foundation (map class_Name (sort_key class_Name cs))
                     (map proto_Name (sort_key proto_Name ps)) class))
                  Map.empty (sort_key class_Name cs))
                (sort_key proto_Name ps) {} headers1 log1 of
           (Inl err, log2) \<Rightarrow> (Inl err, log2)
         | (Inr headers2, log2) \<Rightarrow>
             cat_loop E conf bvs sv
               (foldl (\<lambda>imps class.
                 imps(class_Name class \<mapsto>
                   class_imports foundation (map class_Name (sort_key class_Name cs))
                     (map proto_Name (sort_key proto_Name ps)) class))
                 Map.empty (sort_key class_Name cs))
               (sort_key cat_Name ks) headers2 log2))"
  unfolding entity_headers_def processForwardDeclarations_lists
  by (simp add: unless_absent_def cong: prod.case_cong sum.case_cong)

lemma entity_headers_permutation:
  assumes "sort_key class_Name cs' = sort_key class_Name cs"
    and "sort_key proto_Name ps' = sort_key proto_Name ps"
    and "sort_key cat_Name ks' = sort_key cat_Name ks"
  shows "entity_headers E foundation conf bvs sv
           (m\<lparr>GetObjCClasses := Inr cs', GetObjCProtocols := Inr ps', GetObjCCategories := Inr ks'\<rparr>) log =
         entity_headers E foundation conf bvs sv
           (m\<lparr>GetObjCClasses := Inr cs, GetObjCProtocols := Inr ps, GetObjCCategories := Inr ks\<rparr>) log"
  by (simp only: entity_headers_lists assms)

lemma writeHeaders_permutation:
  assumes "sort_key class_Name cs' = sort_key class_Name cs"
    and "sort_key proto_Name ps' = sort_key proto_Name ps"
    and "sort_key cat_Name ks' = sort_key cat_Name ks"
  shows "writeHeaders E foundation conf
           (m\<lparr>GetObjCClasses := Inr cs', GetObjCProtocols := Inr ps', GetObjCCategories := Inr ks'\<rparr>) log =
         writeHeaders E foundation conf
           (m\<lparr>GetObjCClasses := Inr cs, GetObjCProtocols := Inr ps, GetObjCCategories := Inr ks\<rparr>) log"
  unfolding writeHeaders_def entity_headers_permutation[OF assms]
  by (simp add: Let_def split del: if_split cong: if_cong prod.case_cong sum.case_cong)

lemma scanFoundation_file:
  "scanFoundation (obj\<lparr>o_file := m\<rparr>) =
     (fst (scanFoundation obj), (snd (scanFoundation obj))\<lparr>o_file := m\<rparr>)"
  by (simp add: scanFoundation_def Let_def split: option.splits prod.splits)

text \<open>
  C8 (amended). For a fixed Foundation index and environment, header generation for a binary
  gives the same result, the same header files with the same contents, written in the same
  order (hence the same umbrella include ordering), for every permutation of the class,
  protocol and category lists in which the descriptors that share a name are identical.
\<close>

theorem permutation_determinism:
  assumes "mset cs' = mset cs" and "mset ps' = mset ps" and "mset ks' = mset ks"
    and "inj_on class_Name (set cs)" and "inj_on proto_Name (set ps)"
    and "inj_on cat_Name (set ks)"
  shows "writeHeaders E foundation conf
           (m\<lparr>GetObjCClasses := Inr cs', GetObjCProtocols := Inr ps', GetObjCCategories := Inr ks'\<rparr>) log =
         writeHeaders E foundation conf
           (m\<lparr>GetObjCClasses := Inr cs, GetObjCProtocols := Inr ps, GetObjCCategories := Inr ks\<rparr>) log
    \<and> fst (Headers E (obj\<lparr>o_file :=
              m\<lparr>GetObjCClasses := Inr cs', GetObjCProtocols := Inr ps', GetObjCCategories := Inr ks'\<rparr>\<rparr>) log) =
        fst (Headers E (obj\<lparr>o_file :=
              m\<lparr>GetObjCClasses := Inr cs, GetObjCProtocols := Inr ps, GetObjCCategories := Inr ks\<rparr>\<rparr>) log)
    \<and> snd (snd (Headers E (obj\<lparr>o_file :=
              m\<lparr>GetObjCClasses := Inr cs', GetObjCProtocols := Inr ps', GetObjCCategories := Inr ks'\<rparr>\<rparr>) log)) =
        snd (snd (Headers E (obj\<lparr>o_file :=
              m\<lparr>GetObjCClasses := Inr cs, GetObjCProtocols := Inr ps, GetObjCCategories := Inr ks\<rparr>\<rparr>) log))"
proof -
  note s = sort_key_permutation[OF assms(1,4)] sort_key_permutation[OF assms(2,5)]
    sort_key_permutation[OF assms(3,6)]
  note w = writeHeaders_permutation[OF s]
  show ?thesis
    by (auto simp: w Headers_def scanFoundation_file split: prod.splits sum.splits)
qed

theorem permutation_determinism_witness:
  "mset (rev ex_classes) = mset ex_classes
   \<and> mset (rev ex_protos) = mset ex_protos
   \<and> mset (rev ex_cats) = mset ex_cats
   \<and> inj_on class_Name (set ex_classes)
   \<and> inj_on proto_Name (set ex_protos)
   \<and> inj_on cat_Name (set ex_cats)
   \<and> map fst (snd (snd (writeHeaders ex_env ex_index ex_conf
         (ex_binary\<lparr>GetObjCClasses := Inr (rev ex_classes),
                     GetObjCProtocols := Inr (rev ex_protos),
                     GetObjCCategories := Inr (rev ex_cats)\<rparr>) []))) =
       [''out/Mod/Gadget.h'', ''out/Mod/Widget.h'', ''out/Mod/Copying-Protocol.h'',
        ''out/Mod/WidgetDelegate-Protocol.h'', ''out/Mod/NSString+Additions.h'',
        ''out/Mod/Private.h'', ''out/Mod/Mod.h'']
   \<and> writeHeaders ex_env ex_index ex_conf
         (ex_binary\<lparr>GetObjCClasses := Inr (rev ex_classes),
                     GetObjCProtocols := Inr (rev ex_protos),
                     GetObjCCategories := Inr (rev ex_cats)\<rparr>) [] =
       writeHeaders ex_env ex_index ex_conf
         (ex_binary\<lparr>GetObjCClasses := Inr ex_classes,
                     GetObjCProtocols := Inr ex_protos,
                     GetObjCCategories := Inr ex_cats\<rparr>) []
   \<and> snd (snd (Headers ex_env (ex_obj\<lparr>o_file :=
           ex_binary\<lparr>GetObjCClasses := Inr (rev ex_classes),
                       GetObjCProtocols := Inr (rev ex_protos),
                       GetObjCCategories := Inr (rev ex_cats)\<rparr>\<rparr>) [])) =
       snd (snd (Headers ex_env (ex_obj\<lparr>o_file :=
           ex_binary\<lparr>GetObjCClasses := Inr ex_classes,
                       GetObjCProtocols := Inr ex_protos,
                       GetObjCCategories := Inr ex_cats\<rparr>\<rparr>) []))"
proof -
  have a: "mset (rev ex_classes) = mset ex_classes" "mset (rev ex_protos) = mset ex_protos"
    "mset (rev ex_cats) = mset ex_cats"
    by simp_all
  have b: "inj_on class_Name (set ex_classes)"
    by (auto simp: inj_on_def ex_classes_def ex_Widget_def ex_class_def)
  have c: "inj_on proto_Name (set ex_protos)"
    by (auto simp: inj_on_def ex_protos_def)
  have d: "inj_on cat_Name (set ex_cats)"
    by (auto simp: inj_on_def ex_cats_def)
  have e: "map fst (snd (snd (writeHeaders ex_env ex_index ex_conf
         (ex_binary\<lparr>GetObjCClasses := Inr (rev ex_classes),
                     GetObjCProtocols := Inr (rev ex_protos),
                     GetObjCCategories := Inr (rev ex_cats)\<rparr>) []))) =
       [''out/Mod/Gadget.h'', ''out/Mod/Widget.h'', ''out/Mod/Copying-Protocol.h'',
        ''out/Mod/WidgetDelegate-Protocol.h'', ''out/Mod/NSString+Additions.h'',
        ''out/Mod/Private.h'', ''out/Mod/Mod.h'']"
    by code_simp
  from permutation_determinism [OF a b c d, of ex_env ex_index ex_conf ex_binary "[]" ex_obj]
    a b c d e
  show ?thesis by blast
qed

text \<open>
  The claim as written fails: with two categories named \<open>Additions\<close>, on \<open>NSString\<close> and on
  \<open>NSArray\<close>, the stable sort by name keeps the input order, so the two orders of the list
  give different write orders and different umbrella headers.
\<close>

theorem same_name_categories_order_dependent:
  "mset (rev ex_same_name_cats) = mset ex_same_name_cats
   \<and> map fst (snd (snd (writeHeaders ex_env Map.empty ex_conf
         (ex_cats_binary ex_same_name_cats) []))) =
       [''out/Mod/NSString+Additions.h'', ''out/Mod/NSArray+Additions.h'', ''out/Mod/Mod.h'']
   \<and> map fst (snd (snd (writeHeaders ex_env Map.empty ex_conf
         (ex_cats_binary (rev ex_same_name_cats)) []))) =
       [''out/Mod/NSArray+Additions.h'', ''out/Mod/NSString+Additions.h'', ''out/Mod/Mod.h'']
   \<and> snd (last (snd (snd (writeHeaders ex_env Map.empty ex_conf
         (ex_cats_binary ex_same_name_cats) [])))) \<noteq>
       snd (last (snd (snd (writeHeaders ex_env Map.empty ex_conf
         (ex_cats_binary (rev ex_same_name_cats)) []))))"
proof -
  have "mset (rev ex_same_name_cats) = mset ex_same_name_cats" by simp
  moreover have "map fst (snd (snd (writeHeaders ex_env Map.empty ex_conf
         (ex_cats_binary ex_same_name_cats) []))) =
       [''out/Mod/NSString+Additions.h'', ''out/Mod/NSArray+Additions.h'', ''out/Mod/Mod.h'']"
    by code_simp
  moreover have "map fst (snd (snd (writeHeaders ex_env Map.empty ex_conf
         (ex_cats_binary (rev ex_same_name_cats)) []))) =
       [''out/Mod/NSArray+Additions.h'', ''out/Mod/NSString+Additions.h'', ''out/Mod/Mod.h'']"
    by code_simp
  moreover have "snd (last (snd (snd (writeHeaders ex_env Map.empty ex_conf
         (ex_cats_binary ex_same_name_cats) [])))) \<noteq>
       snd (last (snd (snd (writeHeaders ex_env Map.empty ex_conf
         (ex_cats_binary (rev ex_same_name_cats)) []))))"
    by code_simp
  ultimately show ?thesis by blast
qed

end
